theory Spec2Isabelle
  imports Complex_Main "HOL-Library.Multiset"
begin

section \<open>Data model\<close>

text \<open>
  An item as the shop hands it to the build (\<^verbatim>\<open>ItemShop.loadItems\<close> reads the JSON
  catalogue and adds the category): identifier, display name, category, cost in souls and
  an optional object of stat modifiers. JSON numbers that are whole (costs) are \<open>int\<close>;
  fractional ones (stat modifiers) are exact rationals. \<^verbatim>\<open>Object.entries(item.stats)\<close> is
  the association list of the object in insertion order.
\<close>

record item =
  item_id :: string
  name :: string
  category :: "string option"
  cost :: int
  stats :: "(string \<times> rat) list option"

text \<open>
  \<^verbatim>\<open>HeroBuild\<close>: the mutable field is \<^verbatim>\<open>this.slots\<close>, an array created with twelve
  \<^verbatim>\<open>null\<close> entries. \<open>None\<close> stands for \<^verbatim>\<open>null\<close> and for a hole of the array: the
  methods below treat both alike (\<^verbatim>\<open>some\<close>, \<^verbatim>\<open>filter\<close> and \<^verbatim>\<open>reduce\<close> skip holes,
  the predicates reject \<^verbatim>\<open>null\<close>).
\<close>

record build =
  slots :: "item option list"

definition new_build :: build where
  "new_build = \<lparr>slots = replicate 12 None\<rparr>"

definition unlockThresholds :: "int list" where
  "unlockThresholds = [0, 0, 0, 0, 0, 0, 0, 0, 0, 3000, 6000, 9000]"

text \<open>
  \<^verbatim>\<open>arr[i] = v\<close> on a JavaScript array: inside the array it overwrites, beyond its end
  the array grows and the indices in between are holes.
\<close>

definition js_assign :: "'a option list \<Rightarrow> nat \<Rightarrow> 'a option \<Rightarrow> 'a option list" where
  "js_assign xs i v =
     (if i < length xs then xs[i := v]
      else xs @ replicate (i - length xs) None @ [v])"

section \<open>Build state (HeroBuild.js)\<close>

text \<open>
  \<^verbatim>\<open>getTotalSouls\<close>:
  \<^verbatim>\<open>this.slots.filter(item => item !== null).reduce((sum, item) => sum + item.cost, 0)\<close>.
\<close>

definition getTotalSouls :: "build \<Rightarrow> int" where
  "getTotalSouls b =
     foldl (\<lambda>sum it. sum + cost it) 0 (map the (filter (\<lambda>s. s \<noteq> None) (slots b)))"

text \<open>
  \<^verbatim>\<open>isSlotLocked\<close>: \<^verbatim>\<open>totalSouls < this.unlockThresholds[index]\<close>. Reading the
  threshold array out of range gives \<^verbatim>\<open>undefined\<close>, and a comparison with
  \<^verbatim>\<open>undefined\<close> is false.
\<close>

definition isSlotLocked :: "build \<Rightarrow> nat \<Rightarrow> bool" where
  "isSlotLocked b index =
     (if index < length unlockThresholds
      then getTotalSouls b < unlockThresholds ! index
      else False)"

text \<open>
  \<^verbatim>\<open>getEquippedItemIds\<close>:
  \<^verbatim>\<open>this.slots.filter(slot => slot !== null).map(slot => slot.id)\<close>.
\<close>

definition getEquippedItemIds :: "build \<Rightarrow> string list" where
  "getEquippedItemIds b = map item_id (map the (filter (\<lambda>slot. slot \<noteq> None) (slots b)))"

text \<open>\<^verbatim>\<open>hasItem\<close>: \<^verbatim>\<open>this.slots.some(slot => slot && slot.id === itemId)\<close>.\<close>

definition hasItem :: "build \<Rightarrow> string \<Rightarrow> bool" where
  "hasItem b itemId =
     list_ex (\<lambda>slot. case slot of None \<Rightarrow> False | Some it \<Rightarrow> item_id it = itemId) (slots b)"

text \<open>
  What \<^verbatim>\<open>setItem\<close> hands back: the bare \<^verbatim>\<open>false\<close> of a locked slot, or an object
  with \<^verbatim>\<open>success\<close> and, on rejection, \<^verbatim>\<open>reason\<close>.
\<close>

datatype set_result = ReturnFalse | Result bool "string option"

datatype js_error = TypeError

text \<open>
  The display of a slot is a DOM matter and is not modelled, with one exception:
  \<^verbatim>\<open>updateSlotDisplay(index)\<close> reads \<^verbatim>\<open>this.slotsContainer.children[index]\<close> and
  dereferences it in every branch. The container has the twelve children made by
  \<^verbatim>\<open>initializeSlots\<close>, so for an index beyond 11 the call raises a TypeError, after the
  array has been written. The callback \<^verbatim>\<open>onStatsChange\<close> belongs to the host page and
  is left out.
\<close>

definition updateSlotDisplay :: "nat \<Rightarrow> js_error option" where
  "updateSlotDisplay index = (if index < 12 then None else Some TypeError)"

text \<open>
  \<^verbatim>\<open>setItem(index, item)\<close>: the lock check comes first, then the duplicate check, then
  the write. The result pairs what the caller sees (a value or the exception) with the
  build afterwards.
\<close>

definition setItem :: "nat \<Rightarrow> item \<Rightarrow> build \<Rightarrow> (js_error + set_result) \<times> build" where
  "setItem index it b =
     (if isSlotLocked b index then (Inr ReturnFalse, b)
      else if hasItem b (item_id it) then (Inr (Result False (Some ''duplicate'')), b)
      else
        let b' = b\<lparr>slots := js_assign (slots b) index (Some it)\<rparr> in
        (case updateSlotDisplay index of
           Some e \<Rightarrow> (Inl e, b')
         | None \<Rightarrow> (Inr (Result True None), b')))"

text \<open>\<^verbatim>\<open>removeItem(index)\<close>: \<^verbatim>\<open>this.slots[index] = null\<close>, then the display.\<close>

definition removeItem :: "nat \<Rightarrow> build \<Rightarrow> js_error option \<times> build" where
  "removeItem index b =
     (updateSlotDisplay index, b\<lparr>slots := js_assign (slots b) index None\<rparr>)"

text \<open>\<^verbatim>\<open>reset()\<close>: \<^verbatim>\<open>for (let i = 0; i < 12; i++) this.slots[i] = null\<close>.\<close>

definition reset :: "build \<Rightarrow> build" where
  "reset b = b\<lparr>slots := foldl (\<lambda>xs i. js_assign xs i None) (slots b) [0..<12]\<rparr>"

text \<open>
  The persisted form of a build, \<^verbatim>\<open>buildData.slots\<close>: the current format is an array of
  nullable items, the legacy format an object with up to four arrays keyed by category
  (a missing key is \<open>None\<close>).
\<close>

record legacy_slots =
  weapon :: "item option list option"
  vitality :: "item option list option"
  spirit :: "item option list option"
  flex :: "item option list option"

datatype slots_data = ArraySlots "item option list" | LegacySlots legacy_slots

text \<open>
  The array branch of \<^verbatim>\<open>loadBuild\<close>:
  \<^verbatim>\<open>buildData.slots.forEach((item, index) => { if (index < 12) this.slots[index] = item })\<close>.
\<close>

fun load_array :: "item option list \<Rightarrow> nat \<Rightarrow> item option list \<Rightarrow> item option list" where
  "load_array xs index [] = xs"
| "load_array xs index (it # rest) =
     load_array (if index < 12 then js_assign xs index it else xs) (Suc index) rest"

text \<open>
  The legacy branch: one counter \<^verbatim>\<open>slotIndex\<close> runs over the four categories in the
  fixed order; an entry is written when \<^verbatim>\<open>slotIndex < 12 && item\<close>, and the counter
  advances either way.
\<close>

fun load_category :: "item option list \<times> nat \<Rightarrow> item option list \<Rightarrow> item option list \<times> nat" where
  "load_category (xs, slotIndex) [] = (xs, slotIndex)"
| "load_category (xs, slotIndex) (it # rest) =
     load_category
       (if slotIndex < 12 \<and> it \<noteq> None then js_assign xs slotIndex it else xs, Suc slotIndex)
       rest"

definition load_legacy :: "item option list \<Rightarrow> legacy_slots \<Rightarrow> item option list" where
  "load_legacy xs d =
     fst (foldl (\<lambda>acc c. case c of None \<Rightarrow> acc | Some its \<Rightarrow> load_category acc its)
            (xs, 0) [weapon d, vitality d, spirit d, flex d])"

text \<open>
  \<^verbatim>\<open>loadBuild(buildData)\<close>; the argument is \<open>None\<close> when \<^verbatim>\<open>buildData\<close> or
  \<^verbatim>\<open>buildData.slots\<close> is missing, and then the method returns at once.
\<close>

definition loadBuild :: "slots_data option \<Rightarrow> build \<Rightarrow> build" where
  "loadBuild buildData b =
     (case buildData of
        None \<Rightarrow> b
      | Some (ArraySlots its) \<Rightarrow> b\<lparr>slots := load_array (slots b) 0 its\<rparr>
      | Some (LegacySlots d) \<Rightarrow> b\<lparr>slots := load_legacy (slots b) d\<rparr>)"

text \<open>\<^verbatim>\<open>getBuildData()\<close>: \<^verbatim>\<open>{ slots: [...this.slots] }\<close>.\<close>

definition getBuildData :: "build \<Rightarrow> slots_data option" where
  "getBuildData b = Some (ArraySlots (slots b))"


subsection \<open>Sequences of public operations\<close>

text \<open>
  The public mutators of \<^verbatim>\<open>HeroBuild\<close>, as the host page calls them one after another.
  An exception raised by the display leaves the written array behind, so the run goes on
  from the build each call leaves.
\<close>

datatype op = SetItem nat item | RemoveItem nat | Reset | LoadBuild "slots_data option"

fun apply_op :: "build \<Rightarrow> op \<Rightarrow> build" where
  "apply_op b (SetItem index it) = snd (setItem index it b)"
| "apply_op b (RemoveItem index) = snd (removeItem index b)"
| "apply_op b Reset = reset b"
| "apply_op b (LoadBuild d) = loadBuild d b"

definition run :: "op list \<Rightarrow> build" where
  "run ops = foldl apply_op new_build ops"

text \<open>
  The entries a legacy object offers to the slot counter, in the order the loop visits
  them.
\<close>

definition flatten_legacy :: "legacy_slots \<Rightarrow> item option list" where
  "flatten_legacy d =
     concat (map (\<lambda>c. case c of None \<Rightarrow> [] | Some its \<Rightarrow> its)
       [weapon d, vitality d, spirit d, flex d])"

definition ids_of :: "item option list \<Rightarrow> string list" where
  "ids_of xs = map item_id (map the (filter (\<lambda>slot. slot \<noteq> None) xs))"

text \<open>
  What a load writes and what it leaves alone. The array format writes its first twelve
  entries, a \<^verbatim>\<open>null\<close> among them too, and leaves the slots behind them. The legacy
  format writes the items among its first twelve entries and leaves a slot alone where
  its entry is \<^verbatim>\<open>null\<close>.
\<close>

fun written_by :: "slots_data \<Rightarrow> item option list" where
  "written_by (ArraySlots its) = take 12 its"
| "written_by (LegacySlots d) = take 12 (flatten_legacy d)"

fun kept_after :: "slots_data \<Rightarrow> item option list \<Rightarrow> item option list" where
  "kept_after (ArraySlots its) xs = drop (length (take 12 its)) xs"
| "kept_after (LegacySlots d) xs =
     map snd (filter (\<lambda>p. fst p = None) (zip (take 12 (flatten_legacy d)) xs))
     @ drop (length (take 12 (flatten_legacy d))) xs"

text \<open>
  A load is free of clashes in a build when the identifiers it writes are pairwise
  different and different from the identifiers in the slots it leaves alone.
\<close>

definition load_ok :: "build \<Rightarrow> slots_data \<Rightarrow> bool" where
  "load_ok b d = distinct (ids_of (written_by d) @ ids_of (kept_after d (slots b)))"

fun step_ok :: "build \<Rightarrow> op \<Rightarrow> bool" where
  "step_ok b (LoadBuild (Some d)) = load_ok b d"
| "step_ok b _ = True"

text \<open>
  A sequence of operations in which every load is free of clashes in the build it is
  applied to.
\<close>

fun ops_ok :: "build \<Rightarrow> op list \<Rightarrow> bool" where
  "ops_ok b [] = True"
| "ops_ok b (x # xs) = (step_ok b x \<and> ops_ok (apply_op b x) xs)"

text \<open>The slot a legacy entry leaves behind: the old content under \<^verbatim>\<open>null\<close>.\<close>

definition merge_slot :: "item option \<times> item option \<Rightarrow> item option" where
  "merge_slot p = (case fst p of None \<Rightarrow> snd p | Some it \<Rightarrow> Some it)"

text \<open>The unlock thresholds as the specification words them.\<close>

definition unlockThreshold_spec :: "nat \<Rightarrow> int" where
  "unlockThreshold_spec i =
     (if i < 9 then 0 else if i = 9 then 3000 else if i = 10 then 6000 else 9000)"

section \<open>Stat calculation (utils/calculator.js)\<close>

subsection \<open>JavaScript numbers\<close>

text \<open>
  A JavaScript number is modelled as an exact rational, one of the two infinities, or
  NaN. The operations of this subsection are the exact ones, without the rounding of
  IEEE doubles, and \<^verbatim>\<open>calculateStats\<close> is modelled with them; the rounded operations
  follow in the next subsection, and the ability damage is modelled with those. The
  sign of zero is not modelled. A read of a missing property in arithmetic is NaN.
\<close>

datatype jsnum = Num rat | PosInf | NegInf | NaN

fun jadd :: "jsnum \<Rightarrow> jsnum \<Rightarrow> jsnum" where
  "jadd (Num a) (Num b) = Num (a + b)"
| "jadd NaN _ = NaN"
| "jadd _ NaN = NaN"
| "jadd PosInf NegInf = NaN"
| "jadd NegInf PosInf = NaN"
| "jadd PosInf _ = PosInf"
| "jadd _ PosInf = PosInf"
| "jadd NegInf _ = NegInf"
| "jadd _ NegInf = NegInf"

fun jneg :: "jsnum \<Rightarrow> jsnum" where
  "jneg (Num a) = Num (- a)"
| "jneg PosInf = NegInf"
| "jneg NegInf = PosInf"
| "jneg NaN = NaN"

definition jsub :: "jsnum \<Rightarrow> jsnum \<Rightarrow> jsnum" where
  "jsub a b = jadd a (jneg b)"

fun jmul :: "jsnum \<Rightarrow> jsnum \<Rightarrow> jsnum" where
  "jmul (Num a) (Num b) = Num (a * b)"
| "jmul NaN _ = NaN"
| "jmul _ NaN = NaN"
| "jmul PosInf (Num b) = (if b = 0 then NaN else if 0 < b then PosInf else NegInf)"
| "jmul NegInf (Num b) = (if b = 0 then NaN else if 0 < b then NegInf else PosInf)"
| "jmul (Num a) PosInf = (if a = 0 then NaN else if 0 < a then PosInf else NegInf)"
| "jmul (Num a) NegInf = (if a = 0 then NaN else if 0 < a then NegInf else PosInf)"
| "jmul PosInf PosInf = PosInf"
| "jmul NegInf NegInf = PosInf"
| "jmul PosInf NegInf = NegInf"
| "jmul NegInf PosInf = NegInf"

fun jdiv :: "jsnum \<Rightarrow> jsnum \<Rightarrow> jsnum" where
  "jdiv (Num a) (Num b) =
     (if b = 0 then (if a = 0 then NaN else if 0 < a then PosInf else NegInf)
      else Num (a / b))"
| "jdiv NaN _ = NaN"
| "jdiv _ NaN = NaN"
| "jdiv (Num a) _ = Num 0"
| "jdiv PosInf (Num b) = (if 0 \<le> b then PosInf else NegInf)"
| "jdiv NegInf (Num b) = (if 0 \<le> b then NegInf else PosInf)"
| "jdiv _ _ = NaN"

text \<open>\<^verbatim>\<open>a >= b\<close>: false as soon as one side is NaN.\<close>

fun jge :: "jsnum \<Rightarrow> jsnum \<Rightarrow> bool" where
  "jge (Num a) (Num b) = (b \<le> a)"
| "jge NaN _ = False"
| "jge _ NaN = False"
| "jge PosInf _ = True"
| "jge _ NegInf = True"
| "jge _ _ = False"

text \<open>
  \<^verbatim>\<open>x || d\<close> on a property that holds a number or is missing: \<^verbatim>\<open>undefined\<close>,
  \<^verbatim>\<open>NaN\<close> and \<^verbatim>\<open>0\<close> are falsy.
\<close>

fun or_default :: "jsnum option \<Rightarrow> jsnum \<Rightarrow> jsnum" where
  "or_default None d = d"
| "or_default (Some NaN) d = d"
| "or_default (Some (Num a)) d = (if a = 0 then d else Num a)"
| "or_default (Some v) d = v"

text \<open>A property read inside arithmetic: \<^verbatim>\<open>undefined\<close> becomes NaN.\<close>

fun to_num :: "jsnum option \<Rightarrow> jsnum" where
  "to_num None = NaN"
| "to_num (Some v) = v"

text \<open>\<^verbatim>\<open>Math.round\<close>: the nearest integer, a half going up.\<close>

definition js_round :: "rat \<Rightarrow> int" where
  "js_round x = \<lfloor>x + 1 / 2\<rfloor>"

subsection \<open>IEEE doubles\<close>

text \<open>
  A finite double is a rational \<open>m * 2 ^ e\<close> with \<open>\<bar>m\<bar> < 2 ^ 53\<close> and
  \<open>- 1074 \<le> e \<le> 971\<close>. Reading a decimal number (\<^verbatim>\<open>JSON.parse\<close>, a literal) and
  every arithmetic operation give the double nearest to the exact result, a tie going
  to the even significand, and an infinity from \<open>2 ^ 1024 - 2 ^ 970\<close> on. The sign of
  zero is not modelled.
\<close>

text \<open>The number of binary digits of a positive integer.\<close>

function bits :: "int \<Rightarrow> int" where
  "bits n = (if n \<le> 0 then 0 else 1 + bits (n div 2))"
  by pat_completeness auto
termination
  by (relation "measure nat") auto

declare bits.simps [simp del]

definition pow2 :: "int \<Rightarrow> rat" where
  "pow2 e = (if 0 \<le> e then 2 ^ nat e else 1 / 2 ^ nat (- e))"

text \<open>
  For a positive rational \<open>a / b\<close> the binary exponent is the difference of the digit
  counts of \<open>a\<close> and \<open>b\<close>, or one less.
\<close>

definition floor_log2 :: "rat \<Rightarrow> int" where
  "floor_log2 x =
     (let e0 = bits (fst (quotient_of x)) - bits (snd (quotient_of x))
      in if pow2 e0 \<le> x then e0 else e0 - 1)"

definition round_half_even :: "rat \<Rightarrow> int" where
  "round_half_even n =
     (let f = \<lfloor>n\<rfloor>; d = n - of_int f
      in if d < 1 / 2 then f else if 1 / 2 < d then f + 1 else if even f then f else f + 1)"

definition to_double :: "rat \<Rightarrow> jsnum" where
  "to_double x =
     (if x = 0 then Num 0
      else
        let e = floor_log2 \<bar>x\<bar>;
            p = max (e - 52) (- 1074);
            r = round_half_even (x / pow2 p)
        in if 971 < p \<or> (p = 971 \<and> 2 ^ 53 \<le> \<bar>r\<bar>)
           then (if 0 < x then PosInf else NegInf)
           else Num (of_int r * pow2 p))"

fun rnd :: "jsnum \<Rightarrow> jsnum" where
  "rnd (Num x) = to_double x"
| "rnd v = v"

definition dadd :: "jsnum \<Rightarrow> jsnum \<Rightarrow> jsnum" where
  "dadd a b = rnd (jadd a b)"

definition dmul :: "jsnum \<Rightarrow> jsnum \<Rightarrow> jsnum" where
  "dmul a b = rnd (jmul a b)"

text \<open>\<^verbatim>\<open>Math.round\<close> on a number: exact on a finite one, the identity on the others.\<close>

fun math_round :: "jsnum \<Rightarrow> jsnum" where
  "math_round (Num x) = Num (of_int (js_round x))"
| "math_round v = v"


subsection \<open>Investment bonuses\<close>

text \<open>
  The object \<^verbatim>\<open>{ weapon: { weaponDamage }, vitality: { health }, spirit: { spiritPower } }\<close>.
\<close>

record bonuses =
  weapon_weaponDamage :: rat
  vitality_health :: rat
  spirit_spiritPower :: rat

text \<open>
  \<^verbatim>\<open>calculateInvestmentBonuses(totals)\<close>. The totals are keyed by category; a key that
  is missing reads as \<^verbatim>\<open>undefined\<close>, every comparison with it is false and the bonus
  stays 0.
\<close>

definition ge_total :: "int option \<Rightarrow> int \<Rightarrow> bool" where
  "ge_total t n = (case t of None \<Rightarrow> False | Some v \<Rightarrow> n \<le> v)"

definition calculateInvestmentBonuses :: "(string \<rightharpoonup> int) \<Rightarrow> bonuses" where
  "calculateInvestmentBonuses totals =
     \<lparr>weapon_weaponDamage =
        (if ge_total (totals ''weapon'') 12000 then 28 / 100
         else if ge_total (totals ''weapon'') 5600 then 18 / 100
         else if ge_total (totals ''weapon'') 2400 then 10 / 100
         else if ge_total (totals ''weapon'') 800 then 4 / 100
         else 0),
      vitality_health =
        (if ge_total (totals ''vitality'') 12000 then 375
         else if ge_total (totals ''vitality'') 5600 then 225
         else if ge_total (totals ''vitality'') 2400 then 125
         else if ge_total (totals ''vitality'') 800 then 50
         else 0),
      spirit_spiritPower =
        (if ge_total (totals ''spirit'') 12000 then 40
         else if ge_total (totals ''spirit'') 5600 then 24
         else if ge_total (totals ''spirit'') 2400 then 12
         else if ge_total (totals ''spirit'') 800 then 4
         else 0)\<rparr>"

text \<open>
  The breakpoint tables as the specification lists them, and what it means for an entry
  to be the highest breakpoint a total has met.
\<close>

definition weapon_table :: "(int \<times> rat) list" where
  "weapon_table = [(800, 4 / 100), (2400, 10 / 100), (5600, 18 / 100), (12000, 28 / 100)]"

definition vitality_table :: "(int \<times> rat) list" where
  "vitality_table = [(800, 50), (2400, 125), (5600, 225), (12000, 375)]"

definition spirit_table :: "(int \<times> rat) list" where
  "spirit_table = [(800, 4), (2400, 12), (5600, 24), (12000, 40)]"

definition highest_met :: "(int \<times> rat) list \<Rightarrow> int \<Rightarrow> int \<times> rat \<Rightarrow> bool" where
  "highest_met table spend e =
     (e \<in> set table \<and> fst e \<le> spend
      \<and> (\<forall>e' \<in> set table. fst e' \<le> spend \<longrightarrow> fst e' \<le> fst e))"


subsection \<open>calculateStats\<close>

text \<open>
  A hero carries \<^verbatim>\<open>baseStats\<close>, an object of JSON numbers keyed by stat name. The
  result \<^verbatim>\<open>stats\<close> is one object whose keys are set dynamically: its numeric
  properties are the map \<open>props\<close>, and its one object-valued property
  \<^verbatim>\<open>investmentBonuses\<close> is held apart.
\<close>

record hero =
  baseStats :: "string \<rightharpoonup> rat"

record derived_stats =
  props :: "string \<rightharpoonup> jsnum"
  investmentBonuses :: bonuses

text \<open>
  The start of \<^verbatim>\<open>calculateStats\<close>: a copy of the base stats, the nine accumulators
  set to 0, and \<^verbatim>\<open>stats.stamina = stats.stamina || 3\<close>.
\<close>

definition init_stats :: "hero \<Rightarrow> (string \<rightharpoonup> jsnum)" where
  "init_stats h =
     (let s0 = map_option Num \<circ> baseStats h;
          s1 = s0(''weaponDamage'' \<mapsto> Num 0);
          s2 = s1(''spiritPower'' \<mapsto> Num 0);
          s3 = s2(''bulletLifesteal'' \<mapsto> Num 0);
          s4 = s3(''spiritLifesteal'' \<mapsto> Num 0);
          s5 = s4(''bulletResist'' \<mapsto> Num 0);
          s6 = s5(''spiritResist'' \<mapsto> Num 0);
          s7 = s6(''cooldownReduction'' \<mapsto> Num 0);
          s8 = s7(''abilityRange'' \<mapsto> Num 0);
          s9 = s8(''abilityDuration'' \<mapsto> Num 0)
      in s9(''stamina'' \<mapsto> or_default (s9 ''stamina'') (Num 3)))"

text \<open>
  One entry of \<^verbatim>\<open>Object.entries(item.stats)\<close>. The source has three branches on the
  stat name and the same assignment in each.
\<close>

definition apply_stat :: "(string \<rightharpoonup> jsnum) \<Rightarrow> string \<times> rat \<Rightarrow> (string \<rightharpoonup> jsnum)" where
  "apply_stat st e =
     (case e of (stat, v) \<Rightarrow>
        if stat = ''health'' \<or> stat = ''clipSize''
        then st(stat \<mapsto> jadd (or_default (st stat) (Num 0)) (Num v))
        else if stat = ''healthRegen'' \<or> stat = ''sprintSpeed'' \<or> stat = ''stamina''
        then st(stat \<mapsto> jadd (or_default (st stat) (Num 0)) (Num v))
        else st(stat \<mapsto> jadd (or_default (st stat) (Num 0)) (Num v)))"

text \<open>
  The body of \<^verbatim>\<open>items.forEach\<close>, on the pair of the investment totals and the stats:
  \<^verbatim>\<open>if (!item) return\<close>; the cost goes to the total of the item's category when the
  category is truthy (a string that is not empty); then the item's stats are applied.
\<close>

definition apply_item ::
  "(string \<rightharpoonup> int) \<times> (string \<rightharpoonup> jsnum) \<Rightarrow> item option \<Rightarrow> (string \<rightharpoonup> int) \<times> (string \<rightharpoonup> jsnum)" where
  "apply_item acc slot =
     (case slot of
        None \<Rightarrow> acc
      | Some it \<Rightarrow>
          (let totals = fst acc; st = snd acc;
               totals' =
                 (case category it of
                    None \<Rightarrow> totals
                  | Some c \<Rightarrow>
                      if c = [] then totals
                      else totals(c \<mapsto> (case totals c of None \<Rightarrow> 0 | Some t \<Rightarrow> t) + cost it));
               st' = (case stats it of None \<Rightarrow> st | Some es \<Rightarrow> foldl apply_stat st es)
           in (totals', st')))"

text \<open>\<^verbatim>\<open>calculateEffectiveHealth(health, resist)\<close>.\<close>

definition calculateEffectiveHealth :: "jsnum \<Rightarrow> jsnum \<Rightarrow> jsnum" where
  "calculateEffectiveHealth health resist =
     (if jge resist (Num 1) then PosInf else jdiv health (jsub (Num 1) resist))"

text \<open>
  \<^verbatim>\<open>calculateStats(hero, items, abilityUpgrades)\<close>; the third argument is never read.
  Writing \<^verbatim>\<open>stats.investmentBonuses\<close> replaces whatever number an item or the base
  stats had put under that key.
\<close>

definition calculateStats :: "hero \<Rightarrow> item option list \<Rightarrow> (string \<times> int) list \<Rightarrow> derived_stats" where
  "calculateStats h items abilityUpgrades =
     (let investmentTotals = [''weapon'' \<mapsto> 0, ''vitality'' \<mapsto> 0, ''spirit'' \<mapsto> 0];
          acc = foldl apply_item (investmentTotals, init_stats h) items;
          bon = calculateInvestmentBonuses (fst acc);
          t0 = (snd acc)(''investmentBonuses'' := None);
          t1 = t0(''weaponDamage'' \<mapsto>
                 jadd (to_num (t0 ''weaponDamage''))
                   (or_default (Some (Num (weapon_weaponDamage bon))) (Num 0)));
          t2 = t1(''health'' \<mapsto>
                 jadd (to_num (t1 ''health''))
                   (or_default (Some (Num (vitality_health bon))) (Num 0)));
          t3 = t2(''spiritPower'' \<mapsto>
                 jadd (to_num (t2 ''spiritPower''))
                   (or_default (Some (Num (spirit_spiritPower bon))) (Num 0)));
          t4 = t3(''effectiveBulletDamage'' \<mapsto>
                 jmul (to_num (t3 ''bulletDamage'')) (jadd (Num 1) (to_num (t3 ''weaponDamage''))));
          t5 = t4(''dps'' \<mapsto>
                 jmul (to_num (t4 ''effectiveBulletDamage'')) (to_num (t4 ''fireRate'')));
          t6 = t5(''burstDamage'' \<mapsto>
                 jmul (to_num (t5 ''effectiveBulletDamage'')) (to_num (t5 ''clipSize'')));
          t7 = t6(''effectiveHealth'' \<mapsto>
                 calculateEffectiveHealth (to_num (t6 ''health'')) (to_num (t6 ''bulletResist'')));
          t8 = t7(''effectiveHealthSpirit'' \<mapsto>
                 calculateEffectiveHealth (to_num (t7 ''health'')) (to_num (t7 ''spiritResist'')));
          t9 = t8(''totalSouls'' \<mapsto>
                 Num (of_int (foldl (\<lambda>sum slot. sum + (case slot of None \<Rightarrow> 0 | Some it \<Rightarrow> cost it))
                                0 items)))
      in \<lparr>props = t9, investmentBonuses = bon\<rparr>)"

text \<open>The nine accumulator fields the start of \<^verbatim>\<open>calculateStats\<close> sets to 0.\<close>

definition accumulators :: "string list" where
  "accumulators = [''weaponDamage'', ''spiritPower'', ''bulletLifesteal'', ''spiritLifesteal'',
     ''bulletResist'', ''spiritResist'', ''cooldownReduction'', ''abilityRange'',
     ''abilityDuration'']"

text \<open>The fields \<^verbatim>\<open>calculateStats\<close> computes at its end.\<close>

definition computed_fields :: "string list" where
  "computed_fields = [''effectiveBulletDamage'', ''dps'', ''burstDamage'', ''effectiveHealth'',
     ''effectiveHealthSpirit'', ''totalSouls'', ''investmentBonuses'']"


subsection \<open>Ability damage\<close>

text \<open>
  The parts of an ability \<^verbatim>\<open>calculateAbilityDamage\<close> reads: optional base damage
  and spirit coefficient, and the list of upgrades, each with its effect text. A text is
  a list of characters with codes below 256.
\<close>

record upgrade =
  effect :: string

record ability =
  baseDamage :: "rat option"
  spiritCoefficient :: "rat option"
  upgrades :: "upgrade list"

text \<open>
  The regular expression \<^verbatim>\<open>/\+(\d+)\s*(?:Damage|DPS)/i\<close>. \<^verbatim>\<open>\d\<close> is an ASCII digit;
  \<^verbatim>\<open>\s\<close> is, among the codes below 256, tab, line feed, vertical tab, form feed,
  carriage return, space and the no-break space; under \<^verbatim>\<open>/i\<close> an ASCII letter matches
  in either case.
\<close>

definition is_digit :: "char \<Rightarrow> bool" where
  "is_digit c = (48 \<le> (of_char c :: nat) \<and> (of_char c :: nat) \<le> 57)"

definition is_space :: "char \<Rightarrow> bool" where
  "is_space c = ((of_char c :: nat) \<in> {9, 10, 11, 12, 13, 32, 160})"

definition lower :: "char \<Rightarrow> char" where
  "lower c =
     (if 65 \<le> (of_char c :: nat) \<and> (of_char c :: nat) \<le> 90
      then char_of ((of_char c :: nat) + 32) else c)"

definition is_keyword :: "string \<Rightarrow> bool" where
  "is_keyword s = (map lower (take 6 s) = ''damage'' \<or> map lower (take 3 s) = ''dps'')"

text \<open>
  \<^verbatim>\<open>parseInt\<close> on a run of digits: the integer the digits write, as a double. Beyond
  twenty digits the language standard allows an approximation; the nearest double is
  taken here.
\<close>

definition digits_value :: "string \<Rightarrow> int" where
  "digits_value ds = foldl (\<lambda>n c. 10 * n + (of_char c - 48)) 0 ds"

definition parseInt :: "string \<Rightarrow> jsnum" where
  "parseInt ds = to_double (of_int (digits_value ds))"

text \<open>
  An attempt to match at the start of a text; the result is the text of the group
  \<^verbatim>\<open>(\d+)\<close>. The digits and the white space are taken
  greedily; giving some of them back cannot help, since the keyword would then have to
  start at a digit or at a white-space character.
\<close>

definition match_here :: "string \<Rightarrow> string option" where
  "match_here s =
     (case s of
        [] \<Rightarrow> None
      | c # rest \<Rightarrow>
          if c = CHR ''+'' \<and> takeWhile is_digit rest \<noteq> []
             \<and> is_keyword (dropWhile is_space (dropWhile is_digit rest))
          then Some (takeWhile is_digit rest)
          else None)"

text \<open>\<^verbatim>\<open>text.match(re)\<close>: the leftmost position where the expression matches.\<close>

fun regex_match :: "string \<Rightarrow> string option" where
  "regex_match [] = None"
| "regex_match (c # rest) =
     (case match_here (c # rest) of
        Some n \<Rightarrow> Some n
      | None \<Rightarrow> regex_match rest)"

text \<open>
  One of the three blocks of the source:
  \<^verbatim>\<open>if (upgradeLevel >= k + 1 && ability.upgrades[k]) { match ...; if (match) bonus += parseInt(match[1]) }\<close>.
\<close>

definition upgrade_block :: "ability \<Rightarrow> int \<Rightarrow> nat \<Rightarrow> jsnum \<Rightarrow> jsnum" where
  "upgrade_block a upgradeLevel k bonus =
     (if int k + 1 \<le> upgradeLevel \<and> k < length (upgrades a)
      then (case regex_match (effect (upgrades a ! k)) of
              Some ds \<Rightarrow> dadd bonus (parseInt ds)
            | None \<Rightarrow> bonus)
      else bonus)"

record ability_damage =
  base :: jsnum
  spiritBonus :: jsnum
  upgradeBonus :: jsnum
  total' :: jsnum

text \<open>
  \<^verbatim>\<open>calculateAbilityDamage(ability, spiritPower, upgradeLevel)\<close>. The ability comes from
  a JSON file, so its base damage and coefficient are decimal numbers read as doubles;
  the spirit power is a number of the running program, and a rational that is no double
  stands for the nearest one. \<open>None\<close> is the \<^verbatim>\<open>null\<close> returned when
  \<^verbatim>\<open>ability.baseDamage\<close> is falsy (missing or 0). The sum for the total is
  \<^verbatim>\<open>(baseDamage + spiritBonus) + upgradeDamageBonus\<close>, with the unrounded bonus.
\<close>

definition calculateAbilityDamage :: "ability \<Rightarrow> jsnum \<Rightarrow> int \<Rightarrow> ability_damage option" where
  "calculateAbilityDamage a spiritPower upgradeLevel =
     (case baseDamage a of
        None \<Rightarrow> None
      | Some b \<Rightarrow>
          if to_double b = Num 0 then None
          else
            let coefficient = or_default (map_option to_double (spiritCoefficient a)) (Num 0);
                sb = dmul (rnd spiritPower) coefficient;
                u1 = upgrade_block a upgradeLevel 0 (Num 0);
                u2 = upgrade_block a upgradeLevel 1 u1;
                u3 = upgrade_block a upgradeLevel 2 u2
            in Some \<lparr>base = to_double b, spiritBonus = math_round sb, upgradeBonus = u3,
                      total' = math_round (dadd (dadd (to_double b) sb) u3)\<rparr>)"

text \<open>
  The matches found in a list of upgrade tiers, as the specification words it: a tier
  whose text matches gives the number it names, a tier whose text does not gives
  nothing.
\<close>

fun matches_found :: "upgrade list \<Rightarrow> jsnum list" where
  "matches_found [] = []"
| "matches_found (u # us) =
     (case regex_match (effect u) of
        None \<Rightarrow> matches_found us
      | Some ds \<Rightarrow> parseInt ds # matches_found us)"

text \<open>The integer a tier's text names, 0 when the text does not match.\<close>

definition tier_number :: "upgrade \<Rightarrow> int" where
  "tier_number u = (case regex_match (effect u) of None \<Rightarrow> 0 | Some ds \<Rightarrow> digits_value ds)"

text \<open>
  What the specification means by a text that reads \<open>+N Damage\<close> or \<open>+N DPS\<close> at
  its start: a plus sign, the digits of \<open>N\<close>, white space or none, and the keyword in
  any case.
\<close>

definition damage_pattern :: "string \<Rightarrow> string \<Rightarrow> bool" where
  "damage_pattern s ds =
     (\<exists>ws kw post. s = CHR ''+'' # ds @ ws @ kw @ post \<and> ds \<noteq> [] \<and> list_all is_digit ds
        \<and> list_all is_space ws \<and> (map lower kw = ''damage'' \<or> map lower kw = ''dps''))"

subsection \<open>Ability points\<close>

definition costs :: "nat list" where
  "costs = [1, 2, 5]"

text \<open>
  The inner loop of \<^verbatim>\<open>calculateAbilityPointsUsed\<close>:
  \<^verbatim>\<open>for (let i = 0; i < level && i < costs.length; i++) total += costs[i]\<close>.
\<close>

function cost_loop :: "nat \<Rightarrow> int \<Rightarrow> nat \<Rightarrow> nat" where
  "cost_loop i level total_points =
     (if int i < level \<and> i < length costs
      then cost_loop (Suc i) level (total_points + costs ! i)
      else total_points)"
  by pat_completeness auto
termination
  by (relation "measure (\<lambda>(i, level, total_points). length costs - i)") auto

declare cost_loop.simps [simp del]

text \<open>
  \<^verbatim>\<open>calculateAbilityPointsUsed(abilityUpgrades)\<close>: the object maps an ability identifier
  to its level; \<^verbatim>\<open>Object.values\<close> are the levels in insertion order.
\<close>

definition calculateAbilityPointsUsed :: "(string \<times> int) list \<Rightarrow> nat" where
  "calculateAbilityPointsUsed abilityUpgrades =
     foldl (\<lambda>total_points level. cost_loop 0 level total_points) 0 (map snd abilityUpgrades)"

record milestone =
  souls :: int
  points :: nat

definition milestones :: "milestone list" where
  "milestones =
     [\<lparr>souls = 0, points = 1\<rparr>, \<lparr>souls = 1000, points = 2\<rparr>, \<lparr>souls = 2500, points = 3\<rparr>,
      \<lparr>souls = 4000, points = 4\<rparr>, \<lparr>souls = 6000, points = 5\<rparr>, \<lparr>souls = 8000, points = 6\<rparr>,
      \<lparr>souls = 10000, points = 7\<rparr>, \<lparr>souls = 13000, points = 8\<rparr>, \<lparr>souls = 16000, points = 9\<rparr>,
      \<lparr>souls = 20000, points = 10\<rparr>, \<lparr>souls = 25000, points = 11\<rparr>,
      \<lparr>souls = 30000, points = 12\<rparr>]"

text \<open>
  The loop of \<^verbatim>\<open>getAbilityPointsAvailable\<close>, which leaves at the first milestone not
  reached.
\<close>

fun milestone_loop :: "nat \<Rightarrow> int \<Rightarrow> milestone list \<Rightarrow> nat" where
  "milestone_loop pts totalSouls [] = pts"
| "milestone_loop pts totalSouls (m # ms) =
     (if souls m \<le> totalSouls then milestone_loop (points m) totalSouls ms else pts)"

definition getAbilityPointsAvailable :: "int \<Rightarrow> nat" where
  "getAbilityPointsAvailable totalSouls = milestone_loop 0 totalSouls milestones"

text \<open>
  The highest milestone not exceeding a total of souls, as the specification words it.
\<close>

definition highest_milestone :: "int \<Rightarrow> milestone \<Rightarrow> bool" where
  "highest_milestone t m =
     (m \<in> set milestones \<and> souls m \<le> t
      \<and> (\<forall>m' \<in> set milestones. souls m' \<le> t \<longrightarrow> souls m' \<le> souls m))"

section \<open>Example data\<close>

definition ex_magazine :: item where
  "ex_magazine = \<lparr>item_id = ''basic_magazine'', name = ''Basic Magazine'',
     category = Some ''weapon'', cost = 800, stats = Some [(''weaponDamage'', 3 / 20)]\<rparr>"

definition ex_regen :: item where
  "ex_regen = \<lparr>item_id = ''extra_regen'', name = ''Extra Regen'',
     category = Some ''vitality'', cost = 800, stats = Some [(''healthRegen'', 2)]\<rparr>"

definition ex_leech :: item where
  "ex_leech = \<lparr>item_id = ''leech'', name = ''Leech'',
     category = Some ''vitality'', cost = 6400, stats = Some [(''spiritLifesteal'', 7 / 20)]\<rparr>"

definition ex_cursed :: item where
  "ex_cursed = \<lparr>item_id = ''cursed_relic'', name = ''Cursed Relic'',
     category = Some ''spirit'', cost = - 100, stats = None\<rparr>"

definition ex_build :: build where
  "ex_build = \<lparr>slots = Some ex_magazine # replicate 11 None\<rparr>"


definition ex_hero :: hero where
  "ex_hero = \<lparr>baseStats = [''health'' \<mapsto> 550, ''healthRegen'' \<mapsto> 2, ''bulletDamage'' \<mapsto> 20,
     ''fireRate'' \<mapsto> 5, ''clipSize'' \<mapsto> 24, ''reloadTime'' \<mapsto> 2, ''moveSpeed'' \<mapsto> 7,
     ''sprintSpeed'' \<mapsto> 1]\<rparr>"

definition ex_ability :: ability where
  "ex_ability = \<lparr>baseDamage = Some 50, spiritCoefficient = Some (1 / 2),
     upgrades = [\<lparr>effect = ''+8 Damage''\<rparr>, \<lparr>effect = ''-10s Cooldown''\<rparr>,
       \<lparr>effect = ''+2m Radius and +40 DPS''\<rparr>]\<rparr>"

definition ex_legacy :: legacy_slots where
  "ex_legacy = \<lparr>weapon = Some [Some ex_magazine, None], vitality = None,
     spirit = Some [Some ex_leech], flex = Some []\<rparr>"

definition ex_ops :: "op list" where
  "ex_ops = [SetItem 0 ex_magazine, SetItem 1 ex_regen, LoadBuild (Some (ArraySlots [Some ex_leech])),
     SetItem 15 ex_cursed, LoadBuild (Some (LegacySlots ex_legacy)), RemoveItem 1,
     LoadBuild None, Reset, LoadBuild (getBuildData ex_build)]"

section \<open>Properties of the build state\<close>

lemma foldl_cost_acc:
  "foldl (\<lambda>sum it. sum + cost it) a xs = a + sum_list (map cost xs)"
  by (induction xs arbitrary: a) simp_all

lemma getTotalSouls_sum:
  "getTotalSouls b = sum_list (map cost (map the (filter (\<lambda>s. s \<noteq> None) (slots b))))"
  by (simp add: getTotalSouls_def foldl_cost_acc)

lemma getTotalSouls_nonneg:
  assumes "\<forall>it. Some it \<in> set (slots b) \<longrightarrow> 0 \<le> cost it"
  shows "0 \<le> getTotalSouls b"
  unfolding getTotalSouls_sum
  by (rule sum_list_nonneg) (use assms in auto)

lemma index_cases12:
  "index < (12::nat) \<Longrightarrow> index \<in> {0,1,2,3,4,5,6,7,8,9,10,11}"
  by simp arith

lemma thresholds_nth:
  "index < 12 \<Longrightarrow> unlockThresholds ! index = unlockThreshold_spec index"
  by (drule index_cases12) (auto simp: unlockThresholds_def unlockThreshold_spec_def)

text \<open>
  Claim C3, as the code has it: for every build and every slot index below 12,
  \<^verbatim>\<open>isSlotLocked\<close> is \<open>totalSouls < threshold\<close>, with threshold 0 for the indices
  0 to 8 and 3000, 6000, 9000 for 9, 10, 11. A slot below 9 is therefore locked exactly
  when the total is negative, and never when no equipped item has a negative cost.
\<close>
theorem isSlotLocked_threshold:
  "(index < 12 \<longrightarrow> isSlotLocked b index = (getTotalSouls b < unlockThreshold_spec index))
   \<and> isSlotLocked b 9 = (getTotalSouls b < 3000)
   \<and> isSlotLocked b 10 = (getTotalSouls b < 6000)
   \<and> isSlotLocked b 11 = (getTotalSouls b < 9000)
   \<and> (index < 9 \<longrightarrow> isSlotLocked b index = (getTotalSouls b < 0))
   \<and> (index < 9 \<and> (\<forall>it. Some it \<in> set (slots b) \<longrightarrow> 0 \<le> cost it) \<longrightarrow> \<not> isSlotLocked b index)"
proof -
  have gen: "isSlotLocked b i = (getTotalSouls b < unlockThreshold_spec i)" if "i < 12" for i
    using that by (simp add: isSlotLocked_def thresholds_nth) (simp add: unlockThresholds_def)
  have nn: "\<not> isSlotLocked b index"
    if "index < 9" "\<forall>it. Some it \<in> set (slots b) \<longrightarrow> 0 \<le> cost it"
    using gen [of index] getTotalSouls_nonneg [OF that(2)] that(1)
    by (simp add: unlockThreshold_spec_def)
  show ?thesis
    using gen [of 9] gen [of 10] gen [of 11] gen [of index] nn
    by (auto simp: unlockThreshold_spec_def)
qed

theorem isSlotLocked_threshold_witness:
  "(3::nat) < 12 \<and> list_all (\<lambda>slot. case slot of None \<Rightarrow> True | Some it \<Rightarrow> 0 \<le> cost it) (slots ex_build)
   \<and> \<not> isSlotLocked ex_build 3
   \<and> isSlotLocked ex_build 9 = (getTotalSouls ex_build < 3000)"
proof -
  have h: "\<forall>it. Some it \<in> set (slots ex_build) \<longrightarrow> 0 \<le> cost it"
    by (auto simp: ex_build_def ex_magazine_def)
  have l: "list_all (\<lambda>slot. case slot of None \<Rightarrow> True | Some it \<Rightarrow> 0 \<le> cost it) (slots ex_build)"
    by (simp add: ex_build_def ex_magazine_def list_all_iff)
  have r: "(3::nat) < 12" and r9: "(3::nat) < 9" by simp_all
  from h l r r9 isSlotLocked_threshold [of 3 ex_build] show ?thesis by blast
qed

text \<open>An item of negative cost locks a base slot.\<close>

theorem isSlotLocked_negative_cost_counterexample:
  "isSlotLocked \<lparr>slots = Some ex_cursed # replicate 11 None\<rparr> 0"
  by (simp add: isSlotLocked_def getTotalSouls_def unlockThresholds_def ex_cursed_def)

lemma ids_of_append: "ids_of (xs @ ys) = ids_of xs @ ids_of ys"
  by (simp add: ids_of_def)

lemma ids_of_single: "ids_of [v] = (case v of None \<Rightarrow> [] | Some it \<Rightarrow> [item_id it])"
  by (simp add: ids_of_def split: option.splits)

lemma ids_of_replicate_None: "ids_of (replicate n None) = []"
  by (simp add: ids_of_def)

lemma list_ex_ids:
  "list_ex (\<lambda>slot. case slot of None \<Rightarrow> False | Some it \<Rightarrow> item_id it = i) xs
     = (i \<in> set (ids_of xs))"
  by (induction xs) (auto simp: ids_of_def split: option.splits)

lemma hasItem_ids: "hasItem b i = (i \<in> set (ids_of (slots b)))"
  by (simp add: hasItem_def list_ex_ids)

lemma ids_of_Cons: "ids_of (v # xs) = ids_of [v] @ ids_of xs"
  by (simp add: ids_of_def)

lemma ids_of_update:
  "i < length xs \<Longrightarrow> ids_of (xs[i := v]) = ids_of (take i xs) @ ids_of [v] @ ids_of (drop (Suc i) xs)"
  by (simp add: upd_conv_take_nth_drop ids_of_append ids_of_Cons [of v "drop (Suc i) xs"])

lemma ids_of_split:
  "i < length xs \<Longrightarrow> ids_of xs = ids_of (take i xs) @ ids_of [xs ! i] @ ids_of (drop (Suc i) xs)"
  using ids_of_update [of i xs "xs ! i"] by simp

lemma distinct_assign_None:
  "distinct (ids_of xs) \<Longrightarrow> distinct (ids_of (js_assign xs i None))"
proof (cases "i < length xs")
  case True
  assume d: "distinct (ids_of xs)"
  from d ids_of_split [OF True] have "distinct (ids_of (take i xs) @ ids_of (drop (Suc i) xs))"
    by auto
  with True show ?thesis
    by (simp add: js_assign_def ids_of_update ids_of_single)
next
  case False
  assume "distinct (ids_of xs)"
  with False show ?thesis
    by (simp add: js_assign_def ids_of_append ids_of_replicate_None ids_of_single)
qed

lemma distinct_assign_new:
  assumes "distinct (ids_of xs)" "item_id it \<notin> set (ids_of xs)"
  shows "distinct (ids_of (js_assign xs i (Some it)))"
proof (cases "i < length xs")
  case True
  from assms ids_of_split [OF True]
  have "distinct (ids_of (take i xs) @ [item_id it] @ ids_of (drop (Suc i) xs))"
    by auto
  with True show ?thesis
    by (simp add: js_assign_def ids_of_update ids_of_single)
next
  case False
  with assms show ?thesis
    by (simp add: js_assign_def ids_of_append ids_of_replicate_None ids_of_single)
qed

lemma length_js_assign: "i < length xs \<Longrightarrow> length (js_assign xs i v) = length xs"
  by (simp add: js_assign_def)

lemma load_array_past_end: "12 \<le> i \<Longrightarrow> load_array xs i its = xs"
  by (induction its arbitrary: i) simp_all

lemma load_category_append:
  "load_category acc (as @ bs) = load_category (load_category acc as) bs"
  by (induction acc as rule: load_category.induct) simp_all

lemma load_category_Nil: "load_category acc [] = acc"
  by (cases acc) simp

lemma load_legacy_flatten:
  "load_legacy xs d = fst (load_category (xs, 0) (flatten_legacy d))"
  by (simp add: load_legacy_def flatten_legacy_def load_category_append load_category_Nil
        split: option.splits)

lemma load_category_past_end: "12 \<le> i \<Longrightarrow> fst (load_category (xs, i) its) = xs"
  by (induction its arbitrary: i) simp_all

lemma length_js_assign_ge: "length xs \<le> length (js_assign xs i v)"
  by (simp add: js_assign_def)

lemma load_array_general:
  "i \<le> length xs \<Longrightarrow>
     load_array xs i its
       = take i xs @ take (12 - i) its @ drop (i + length (take (12 - i) its)) xs"
proof (induction its arbitrary: xs i)
  case Nil
  then show ?case by simp
next
  case (Cons it rest)
  show ?case
  proof (cases "i < 12")
    case False
    then show ?thesis by (simp add: load_array_past_end)
  next
    case True
    let ?xs' = "js_assign xs i it"
    from True have s: "12 - i = Suc (12 - Suc i)" by arith
    have tk: "take (12 - i) (it # rest) = it # take (12 - Suc i) rest"
      by (simp only: s take_Suc_Cons)
    have len: "Suc i \<le> length ?xs'"
      using Cons.prems by (simp add: js_assign_def)
    have pre: "take (Suc i) ?xs' = take i xs @ [it]"
      using Cons.prems by (cases "i < length xs") (simp_all add: js_assign_def take_Suc_conv_app_nth)
    have post: "drop (Suc i + k) ?xs' = drop (Suc i + k) xs" for k
      using Cons.prems by (cases "i < length xs") (simp_all add: js_assign_def)
    from True have "load_array xs i (it # rest) = load_array ?xs' (Suc i) rest"
      by simp
    also have "\<dots> = take (Suc i) ?xs' @ take (12 - Suc i) rest
        @ drop (Suc i + length (take (12 - Suc i) rest)) ?xs'"
      by (rule Cons.IH [OF len])
    also have "\<dots> = take i xs @ take (12 - i) (it # rest)
        @ drop (i + length (take (12 - i) (it # rest))) xs"
      by (simp only: pre post tk) simp
    finally show ?thesis .
  qed
qed

lemma load_array_ids:
  "ids_of (load_array xs 0 its)
     = ids_of (written_by (ArraySlots its)) @ ids_of (kept_after (ArraySlots its) xs)"
  using load_array_general [of 0 xs its] by (simp add: ids_of_append)

lemma load_array_length: "length xs \<le> length (load_array xs 0 its)"
  using load_array_general [of 0 xs its] by simp

lemma load_category_general:
  "i \<le> 12 \<Longrightarrow> 12 \<le> length xs \<Longrightarrow>
     fst (load_category (xs, i) fs)
       = take i xs @ map merge_slot (zip (take (12 - i) fs) (drop i xs))
         @ drop (i + length (take (12 - i) fs)) xs"
proof (induction fs arbitrary: xs i)
  case Nil
  then show ?case by simp
next
  case (Cons f rest)
  show ?case
  proof (cases "i < 12")
    case False
    with Cons.prems have "i = 12" by simp
    then show ?thesis by (simp add: load_category_past_end)
  next
    case True
    let ?xs' = "if f \<noteq> None then js_assign xs i f else xs"
    from True Cons.prems have lt: "i < length xs" by simp
    from True have s: "12 - i = Suc (12 - Suc i)" by arith
    have tk: "take (12 - i) (f # rest) = f # take (12 - Suc i) rest"
      by (simp only: s take_Suc_Cons)
    have dr: "drop i xs = xs ! i # drop (Suc i) xs"
      using lt by (simp add: Cons_nth_drop_Suc)
    have len: "12 \<le> length ?xs'"
      using Cons.prems lt by (simp add: js_assign_def)
    have pre: "take (Suc i) ?xs' = take i xs @ [merge_slot (f, xs ! i)]"
      using lt by (cases f) (simp_all add: js_assign_def take_Suc_conv_app_nth merge_slot_def)
    have post: "drop (Suc i + k) ?xs' = drop (Suc i + k) xs" for k
      using lt by (simp add: js_assign_def)
    from post [of 0] have post0: "drop (Suc i) ?xs' = drop (Suc i) xs" by simp
    from True have "fst (load_category (xs, i) (f # rest)) = fst (load_category (?xs', Suc i) rest)"
      by simp
    also from True len have "\<dots> = take (Suc i) ?xs'
        @ map merge_slot (zip (take (12 - Suc i) rest) (drop (Suc i) ?xs'))
        @ drop (Suc i + length (take (12 - Suc i) rest)) ?xs'"
      by (intro Cons.IH) simp_all
    also have "\<dots> = take i xs @ map merge_slot (zip (take (12 - i) (f # rest)) (drop i xs))
        @ drop (i + length (take (12 - i) (f # rest))) xs"
      by (simp only: pre post post0 tk dr) simp
    finally show ?thesis .
  qed
qed

lemma ids_of_None_Cons: "ids_of (None # xs) = ids_of xs"
  by (simp add: ids_of_def)

lemma ids_of_Some_Cons: "ids_of (Some a # xs) = item_id a # ids_of xs"
  by (simp add: ids_of_def)

lemma merge_ids_mset:
  "length fs \<le> length xs \<Longrightarrow>
     mset (ids_of (map merge_slot (zip fs xs)))
       = mset (ids_of fs) + mset (ids_of (map snd (filter (\<lambda>p. fst p = None) (zip fs xs))))"
proof (induction fs arbitrary: xs)
  case Nil
  then show ?case by (simp add: ids_of_def)
next
  case (Cons f fs)
  then obtain x xs' where xs: "xs = x # xs'" by (cases xs) auto
  with Cons.prems have "length fs \<le> length xs'" by simp
  from Cons.IH [OF this] xs show ?case
    by (cases f; cases x) (simp_all add: ids_of_None_Cons ids_of_Some_Cons merge_slot_def)
qed

lemma load_legacy_ids:
  assumes "12 \<le> length xs"
  shows "mset (ids_of (load_legacy xs d))
     = mset (ids_of (written_by (LegacySlots d)) @ ids_of (kept_after (LegacySlots d) xs))"
proof -
  let ?fl = "take 12 (flatten_legacy d)"
  from assms have le: "length ?fl \<le> length xs" by simp
  from assms have "load_legacy xs d
      = map merge_slot (zip ?fl xs) @ drop (length ?fl) xs"
    using load_category_general [of 0 xs "flatten_legacy d"]
    by (simp add: load_legacy_flatten)
  then show ?thesis
    by (simp add: ids_of_append merge_ids_mset [OF le])
qed

lemma load_legacy_length:
  assumes "12 \<le> length xs"
  shows "length (load_legacy xs d) = length xs"
proof -
  let ?fl = "take 12 (flatten_legacy d)"
  from assms have "load_legacy xs d
      = map merge_slot (zip ?fl xs) @ drop (length ?fl) xs"
    using load_category_general [of 0 xs "flatten_legacy d"]
    by (simp add: load_legacy_flatten)
  with assms show ?thesis by simp
qed

lemma reset_distinct:
  "distinct (ids_of xs) \<Longrightarrow> distinct (ids_of (foldl (\<lambda>xs i. js_assign xs i None) xs js))"
  by (induction js arbitrary: xs) (simp_all add: distinct_assign_None)

lemma reset_length:
  "length xs \<le> length (foldl (\<lambda>xs i. js_assign xs i None) xs js)"
proof (induction js arbitrary: xs)
  case Nil
  then show ?case by simp
next
  case (Cons i js)
  have "length xs \<le> length (js_assign xs i None)" by (rule length_js_assign_ge)
  also have "\<dots> \<le> length (foldl (\<lambda>xs i. js_assign xs i None) (js_assign xs i None) js)"
    by (rule Cons.IH)
  finally show ?case by simp
qed

lemma build_invariant_step:
  assumes "step_ok b x" "12 \<le> length (slots b)" "distinct (ids_of (slots b))"
  shows "12 \<le> length (slots (apply_op b x)) \<and> distinct (ids_of (slots (apply_op b x)))"
proof (cases x)
  case (SetItem index it)
  have "length (slots b) \<le> length (js_assign (slots b) index (Some it))"
    by (rule length_js_assign_ge)
  moreover have "distinct (ids_of (js_assign (slots b) index (Some it)))"
    if "\<not> hasItem b (item_id it)"
    using that assms(3) by (simp add: hasItem_ids distinct_assign_new)
  ultimately show ?thesis using SetItem assms(2,3)
    by (simp add: setItem_def Let_def split: option.splits)
next
  case (RemoveItem index)
  have "length (slots b) \<le> length (js_assign (slots b) index None)"
    by (rule length_js_assign_ge)
  with RemoveItem assms show ?thesis
    by (simp add: removeItem_def distinct_assign_None)
next
  case Reset
  have "length (slots b) \<le> length (foldl (\<lambda>xs i. js_assign xs i None) (slots b) [0..<12])"
    by (rule reset_length)
  with Reset assms show ?thesis
    by (simp add: reset_def reset_distinct)
next
  case (LoadBuild d)
  show ?thesis
  proof (cases d)
    case None
    with LoadBuild assms show ?thesis by (simp add: loadBuild_def)
  next
    case (Some sd)
    with LoadBuild assms have ok: "load_ok b sd" by simp
    show ?thesis
    proof (cases sd)
      case (ArraySlots its)
      have "length (slots b) \<le> length (load_array (slots b) 0 its)"
        by (rule load_array_length)
      moreover from ok ArraySlots have "distinct (ids_of (load_array (slots b) 0 its))"
        by (simp only: load_array_ids load_ok_def)
      ultimately show ?thesis using ArraySlots Some LoadBuild assms(2)
        by (simp add: loadBuild_def)
    next
      case (LegacySlots l)
      from ok LegacySlots have wk: "distinct (ids_of (written_by (LegacySlots l))
          @ ids_of (kept_after (LegacySlots l) (slots b)))"
        by (simp only: load_ok_def)
      have "distinct (ids_of (load_legacy (slots b) l))
          = distinct (ids_of (written_by (LegacySlots l))
              @ ids_of (kept_after (LegacySlots l) (slots b)))"
        by (rule mset_eq_imp_distinct_iff [OF load_legacy_ids [OF assms(2)]])
      from this [THEN iffD2, OF wk] have "distinct (ids_of (load_legacy (slots b) l))" .
      with load_legacy_length [OF assms(2), of l] show ?thesis
        using LegacySlots Some LoadBuild assms(2) by (simp add: loadBuild_def)
    qed
  qed
qed

lemma build_invariant_foldl:
  "ops_ok b ops \<Longrightarrow> 12 \<le> length (slots b) \<Longrightarrow> distinct (ids_of (slots b)) \<Longrightarrow>
     distinct (ids_of (slots (foldl apply_op b ops)))"
proof (induction ops arbitrary: b)
  case Nil
  then show ?case by simp
next
  case (Cons x ops)
  from Cons.prems have "step_ok b x" "ops_ok (apply_op b x) ops" by simp_all
  with Cons.prems build_invariant_step [of b x] Cons.IH [of "apply_op b x"] show ?case
    by simp
qed

text \<open>
  Claim C2, as the code has it: in every build reached from the empty twelve-slot build by
  any sequence of \<^verbatim>\<open>setItem\<close>, \<^verbatim>\<open>removeItem\<close>, \<^verbatim>\<open>reset\<close> and \<^verbatim>\<open>loadBuild\<close>
  in either format, in which every load writes identifiers that are pairwise different
  and different from the identifiers in the slots that load leaves alone, no two occupied
  slots share an identifier. \<^verbatim>\<open>loadBuild\<close> itself checks nothing.
\<close>
theorem no_duplicate_ids_reachable:
  assumes "ops_ok new_build ops"
  shows "distinct (getEquippedItemIds (run ops))"
  using build_invariant_foldl [OF assms]
  by (simp add: run_def getEquippedItemIds_def ids_of_def new_build_def)

text \<open>
  Claim C1, as the code has it: when the identifier of the item is already in some slot,
  \<^verbatim>\<open>setItem\<close> returns the duplicate rejection for every target slot that is not
  locked; for a locked target slot the lock check, which runs first, returns the bare
  \<^verbatim>\<open>false\<close>. The build is unchanged either way.
\<close>
theorem setItem_duplicate:
  assumes "Some it' \<in> set (slots b)" and "item_id it' = item_id it"
  shows "(\<not> isSlotLocked b index \<longrightarrow>
            setItem index it b = (Inr (Result False (Some ''duplicate'')), b))
       \<and> (isSlotLocked b index \<longrightarrow> setItem index it b = (Inr ReturnFalse, b))"
proof -
  from assms have "item_id it \<in> set (ids_of (slots b))"
    by (force simp: ids_of_def)
  then have "hasItem b (item_id it)"
    by (simp add: hasItem_ids)
  then show ?thesis
    by (simp add: setItem_def)
qed

lemma ex_build_souls: "getTotalSouls ex_build = 800"
  by (simp add: getTotalSouls_def ex_build_def ex_magazine_def)

theorem setItem_duplicate_witness:
  "Some ex_magazine \<in> set (slots ex_build)
   \<and> \<not> isSlotLocked ex_build 3
   \<and> setItem 3 ex_magazine ex_build = (Inr (Result False (Some ''duplicate'')), ex_build)
   \<and> isSlotLocked ex_build 10
   \<and> setItem 10 ex_magazine ex_build = (Inr ReturnFalse, ex_build)"
proof -
  have h: "Some ex_magazine \<in> set (slots ex_build)"
    by (simp add: ex_build_def)
  have u: "\<not> isSlotLocked ex_build 3" and l: "isSlotLocked ex_build 10"
    by (simp_all add: isSlotLocked_def ex_build_souls unlockThresholds_def)
  from h u l setItem_duplicate [OF h refl, of 3] setItem_duplicate [OF h refl, of 10]
  show ?thesis by simp
qed

text \<open>With 800 souls spent slot 9 is locked, and an item already equipped gets the bare
  \<^verbatim>\<open>false\<close> there.\<close>

theorem setItem_duplicate_locked_counterexample:
  "hasItem ex_build (item_id ex_magazine)
   \<and> fst (setItem 9 ex_magazine ex_build) = Inr ReturnFalse
   \<and> fst (setItem 9 ex_magazine ex_build) \<noteq> Inr (Result False (Some ''duplicate''))"
proof -
  have "isSlotLocked ex_build 9"
    by (simp add: isSlotLocked_def ex_build_souls unlockThresholds_def)
  moreover have "hasItem ex_build (item_id ex_magazine)"
    by (simp add: hasItem_def ex_build_def)
  ultimately show ?thesis
    by (simp add: setItem_def)
qed

text \<open>
  Claim C8, as the code has it: on a twelve-slot build, for a slot index below 12 that is
  not locked and an item whose identifier is in no slot, \<^verbatim>\<open>setItem\<close> succeeds, the
  slot then holds the new item, and every other slot is unchanged. What the target slot
  held before is overwritten.
\<close>
theorem setItem_overwrites:
  assumes "length (slots b) = 12" and "index < 12" and "\<not> isSlotLocked b index"
    and "\<forall>it'. Some it' \<in> set (slots b) \<longrightarrow> item_id it' \<noteq> item_id it"
  shows "fst (setItem index it b) = Inr (Result True None)
       \<and> length (slots (snd (setItem index it b))) = 12
       \<and> slots (snd (setItem index it b)) ! index = Some it
       \<and> (\<forall>j < 12. j \<noteq> index \<longrightarrow> slots (snd (setItem index it b)) ! j = slots b ! j)"
proof -
  from assms(4) have "item_id it \<notin> set (ids_of (slots b))"
    by (auto simp: ids_of_def)
  then have "\<not> hasItem b (item_id it)"
    by (simp add: hasItem_ids)
  with assms(1-3) show ?thesis
    by (simp add: setItem_def Let_def updateSlotDisplay_def js_assign_def)
qed

theorem setItem_overwrites_witness:
  "fst (setItem 0 ex_regen ex_build) = Inr (Result True None)
   \<and> slots (snd (setItem 0 ex_regen ex_build)) ! 0 = Some ex_regen
   \<and> slots (snd (setItem 0 ex_regen ex_build)) ! 1 = slots ex_build ! 1"
proof -
  have a: "length (slots ex_build) = 12" by (simp add: ex_build_def)
  have c: "\<not> isSlotLocked ex_build 0"
    by (simp add: isSlotLocked_def ex_build_souls unlockThresholds_def)
  have d: "\<forall>it'. Some it' \<in> set (slots ex_build) \<longrightarrow> item_id it' \<noteq> item_id ex_regen"
    by (auto simp: ex_build_def ex_magazine_def ex_regen_def)
  from setItem_overwrites [OF a _ c d] show ?thesis by simp
qed

text \<open>Equipping into an occupied slot removes the item that was there.\<close>

theorem setItem_evicts_counterexample:
  "\<not> isSlotLocked ex_build 0
   \<and> \<not> hasItem ex_build (item_id ex_regen)
   \<and> Some ex_magazine \<in> set (slots ex_build)
   \<and> fst (setItem 0 ex_regen ex_build) = Inr (Result True None)
   \<and> Some ex_magazine \<notin> set (slots (snd (setItem 0 ex_regen ex_build)))"
proof -
  have u: "\<not> isSlotLocked ex_build 0"
    by (simp add: isSlotLocked_def ex_build_souls unlockThresholds_def)
  have n: "\<not> hasItem ex_build (item_id ex_regen)"
    by (simp add: hasItem_def list_ex_iff ex_build_def ex_magazine_def ex_regen_def)
  have s: "setItem 0 ex_regen ex_build
      = (Inr (Result True None), \<lparr>slots = Some ex_regen # replicate 11 None\<rparr>)"
    using u n by (simp add: setItem_def Let_def updateSlotDisplay_def js_assign_def)
         (simp add: ex_build_def)
  have "Some ex_magazine \<in> set (slots ex_build)"
    by (simp add: ex_build_def)
  moreover have "Some ex_magazine \<notin> set (Some ex_regen # replicate 11 None)"
    by (simp add: ex_magazine_def ex_regen_def)
  ultimately show ?thesis using u n s by simp
qed

lemma load_array_full_round:
  assumes "length its = 12" "length xs \<le> 12"
  shows "load_array xs 0 its = its"
  using load_array_general [of 0 xs its] assms by simp

text \<open>
  Claim C9: the data \<^verbatim>\<open>getBuildData\<close> returns for a twelve-slot build, loaded into any
  build of at most twelve slots, restore the slot array of the build they came from; and
  loaded into the build they came from they leave it as it was.
\<close>
theorem loadBuild_getBuildData:
  "(length (slots b) = 12 \<and> length (slots b') \<le> 12 \<longrightarrow>
      slots (loadBuild (getBuildData b) b') = slots b)
   \<and> loadBuild (getBuildData b) b = b"
proof -
  have "load_array (slots b) 0 (slots b) = slots b"
    using load_array_general [of 0 "slots b" "slots b"]
    by (simp add: min_def)
  then show ?thesis
    by (simp add: loadBuild_def getBuildData_def load_array_full_round)
qed

theorem loadBuild_getBuildData_witness:
  "length (slots ex_build) = 12
   \<and> length (slots \<lparr>slots = replicate 3 None @ [Some ex_leech]\<rparr>) \<le> 12
   \<and> slots (loadBuild (getBuildData ex_build) \<lparr>slots = replicate 3 None @ [Some ex_leech]\<rparr>)
       = Some ex_magazine # replicate 11 None"
proof -
  have a: "length (slots ex_build) = 12" by (simp add: ex_build_def)
  have b: "length (slots \<lparr>slots = replicate 3 None @ [Some ex_leech]\<rparr>) \<le> 12" by simp
  from a b loadBuild_getBuildData [of ex_build "\<lparr>slots = replicate 3 None @ [Some ex_leech]\<rparr>"]
  have "slots (loadBuild (getBuildData ex_build) \<lparr>slots = replicate 3 None @ [Some ex_leech]\<rparr>)
      = slots ex_build"
    by blast
  with a b show ?thesis by (simp add: ex_build_def)
qed

theorem no_duplicate_ids_reachable_witness:
  "ops_ok new_build ex_ops \<and> distinct (getEquippedItemIds (run ex_ops))"
proof -
  have h: "ops_ok new_build ex_ops"
    by code_simp
  from h no_duplicate_ids_reachable [OF h] show ?thesis by simp
qed

text \<open>Loading an array that names one item twice gives a build with a duplicate.\<close>

theorem loadBuild_duplicates_counterexample:
  "\<not> distinct (getEquippedItemIds
       (run [LoadBuild (Some (ArraySlots (Some ex_magazine # Some ex_magazine # replicate 10 None)))]))"
  by (simp add: run_def new_build_def loadBuild_def getEquippedItemIds_def js_assign_def
        numeral_eq_Suc)

section \<open>Properties of the stat calculation\<close>

lemma cost_loop_from:
  "cost_loop i level t = t + sum_list (drop i (take (nat level) costs))"
proof (induction i level t rule: cost_loop.induct)
  case (1 i level t)
  show ?case
  proof (cases "int i < level \<and> i < length costs")
    case True
    then have "i < nat level" by linarith
    with True have lt: "i < length (take (nat level) costs)" by simp
    from True have "cost_loop i level t = cost_loop (Suc i) level (t + costs ! i)"
      by (subst cost_loop.simps) simp
    also from True 1 have "\<dots> = t + costs ! i + sum_list (drop (Suc i) (take (nat level) costs))"
      by simp
    also from lt have "drop i (take (nat level) costs)
        = (take (nat level) costs) ! i # drop (Suc i) (take (nat level) costs)"
      by (simp only: Cons_nth_drop_Suc)
    then have "t + costs ! i + sum_list (drop (Suc i) (take (nat level) costs))
        = t + sum_list (drop i (take (nat level) costs))"
      using True \<open>i < nat level\<close> by simp
    finally show ?thesis .
  next
    case False
    then have "length (take (nat level) costs) \<le> i" by auto
    then have "drop i (take (nat level) costs) = []" by simp
    moreover from False have "cost_loop i level t = t"
      by (subst cost_loop.simps) auto
    ultimately show ?thesis by simp
  qed
qed

lemma points_used_foldl:
  "foldl (\<lambda>total_points level. cost_loop 0 level total_points) t ls
     = t + sum_list (map (\<lambda>level. sum_list (take (nat level) costs)) ls)"
  by (induction ls arbitrary: t) (simp_all add: cost_loop_from)

lemma milestone_cases:
  "0 \<le> t \<Longrightarrow> getAbilityPointsAvailable t =
     (if t < 1000 then 1 else if t < 2500 then 2 else if t < 4000 then 3 else if t < 6000 then 4
      else if t < 8000 then 5 else if t < 10000 then 6 else if t < 13000 then 7
      else if t < 16000 then 8 else if t < 20000 then 9 else if t < 25000 then 10
      else if t < 30000 then 11 else 12)"
  by (simp add: getAbilityPointsAvailable_def milestones_def)

lemma highest_milestone_points:
  assumes "0 \<le> t" "highest_milestone t m"
  shows "getAbilityPointsAvailable t = points m"
proof -
  from assms(2) have m: "m \<in> set milestones" and le: "souls m \<le> t"
    and hi: "\<forall>m' \<in> set milestones. souls m' \<le> t \<longrightarrow> souls m' \<le> souls m"
    by (simp_all add: highest_milestone_def)
  from hi have hi': "list_all (\<lambda>m'. souls m' \<le> t \<longrightarrow> souls m' \<le> souls m) milestones"
    by (simp add: list_all_iff)
  from m have "m \<in> set milestones" .
  then consider "m = \<lparr>souls = 0, points = 1\<rparr>" | "m = \<lparr>souls = 1000, points = 2\<rparr>"
    | "m = \<lparr>souls = 2500, points = 3\<rparr>" | "m = \<lparr>souls = 4000, points = 4\<rparr>"
    | "m = \<lparr>souls = 6000, points = 5\<rparr>" | "m = \<lparr>souls = 8000, points = 6\<rparr>"
    | "m = \<lparr>souls = 10000, points = 7\<rparr>" | "m = \<lparr>souls = 13000, points = 8\<rparr>"
    | "m = \<lparr>souls = 16000, points = 9\<rparr>" | "m = \<lparr>souls = 20000, points = 10\<rparr>"
    | "m = \<lparr>souls = 25000, points = 11\<rparr>" | "m = \<lparr>souls = 30000, points = 12\<rparr>"
    unfolding milestones_def by auto
  then show ?thesis
    using le hi' unfolding milestone_cases [OF assms(1)]
    by cases (simp_all add: milestones_def)
qed

lemma highest_milestone_exists:
  assumes "0 \<le> t"
  shows "\<exists>m. highest_milestone t m"
proof -
  consider "t < 1000" | "1000 \<le> t \<and> t < 2500" | "2500 \<le> t \<and> t < 4000" | "4000 \<le> t \<and> t < 6000"
    | "6000 \<le> t \<and> t < 8000" | "8000 \<le> t \<and> t < 10000" | "10000 \<le> t \<and> t < 13000"
    | "13000 \<le> t \<and> t < 16000" | "16000 \<le> t \<and> t < 20000" | "20000 \<le> t \<and> t < 25000"
    | "25000 \<le> t \<and> t < 30000" | "30000 \<le> t"
    by linarith
  then show ?thesis
  proof cases
    case 1
    with assms have "highest_milestone t \<lparr>souls = 0, points = 1\<rparr>"
      by (simp add: highest_milestone_def milestones_def)
    then show ?thesis ..
  next
    case 2
    then have "highest_milestone t \<lparr>souls = 1000, points = 2\<rparr>"
      by (simp add: highest_milestone_def milestones_def)
    then show ?thesis ..
  next
    case 3
    then have "highest_milestone t \<lparr>souls = 2500, points = 3\<rparr>"
      by (simp add: highest_milestone_def milestones_def)
    then show ?thesis ..
  next
    case 4
    then have "highest_milestone t \<lparr>souls = 4000, points = 4\<rparr>"
      by (simp add: highest_milestone_def milestones_def)
    then show ?thesis ..
  next
    case 5
    then have "highest_milestone t \<lparr>souls = 6000, points = 5\<rparr>"
      by (simp add: highest_milestone_def milestones_def)
    then show ?thesis ..
  next
    case 6
    then have "highest_milestone t \<lparr>souls = 8000, points = 6\<rparr>"
      by (simp add: highest_milestone_def milestones_def)
    then show ?thesis ..
  next
    case 7
    then have "highest_milestone t \<lparr>souls = 10000, points = 7\<rparr>"
      by (simp add: highest_milestone_def milestones_def)
    then show ?thesis ..
  next
    case 8
    then have "highest_milestone t \<lparr>souls = 13000, points = 8\<rparr>"
      by (simp add: highest_milestone_def milestones_def)
    then show ?thesis ..
  next
    case 9
    then have "highest_milestone t \<lparr>souls = 16000, points = 9\<rparr>"
      by (simp add: highest_milestone_def milestones_def)
    then show ?thesis ..
  next
    case 10
    then have "highest_milestone t \<lparr>souls = 20000, points = 10\<rparr>"
      by (simp add: highest_milestone_def milestones_def)
    then show ?thesis ..
  next
    case 11
    then have "highest_milestone t \<lparr>souls = 25000, points = 11\<rparr>"
      by (simp add: highest_milestone_def milestones_def)
    then show ?thesis ..
  next
    case 12
    then have "highest_milestone t \<lparr>souls = 30000, points = 12\<rparr>"
      by (simp add: highest_milestone_def milestones_def)
    then show ?thesis ..
  qed
qed

text \<open>
  Claim C6: for every ability-upgrade mapping, the points used are the sum over the
  abilities of the first \<open>level\<close> entries of the cost list 1, 2, 5, so that level 3
  costs 8 and level 0 costs 0; and for every total of souls that is not negative there is
  a highest milestone of the table not exceeding it, and the points available are the
  points of that milestone: 3 at 2500, 2 at 2499, 1 at 0.
\<close>
theorem ability_points:
  "calculateAbilityPointsUsed ups
     = sum_list (map (\<lambda>level. sum_list (take (nat level) costs)) (map snd ups))
   \<and> calculateAbilityPointsUsed [(a, 3)] = 8
   \<and> calculateAbilityPointsUsed [(a, 0)] = 0
   \<and> (0 \<le> t \<longrightarrow> (\<exists>m. highest_milestone t m))
   \<and> (0 \<le> t \<and> highest_milestone t m \<longrightarrow> getAbilityPointsAvailable t = points m)
   \<and> getAbilityPointsAvailable 2500 = 3
   \<and> getAbilityPointsAvailable 2499 = 2
   \<and> getAbilityPointsAvailable 0 = 1"
proof -
  have used: "calculateAbilityPointsUsed xs
      = sum_list (map (\<lambda>level. sum_list (take (nat level) costs)) (map snd xs))" for xs
    by (simp add: calculateAbilityPointsUsed_def points_used_foldl)
  have "calculateAbilityPointsUsed [(a, 3)] = 8" "calculateAbilityPointsUsed [(a, 0)] = 0"
    by (simp_all add: used costs_def)
  moreover have "getAbilityPointsAvailable 2500 = 3" "getAbilityPointsAvailable 2499 = 2"
    "getAbilityPointsAvailable 0 = 1"
    by (simp_all add: milestone_cases)
  ultimately show ?thesis
    using used [of ups] highest_milestone_exists [of t] highest_milestone_points [of t m]
    by blast
qed

theorem ability_points_witness:
  "(0::int) \<le> 2750 \<and> highest_milestone 2750 \<lparr>souls = 2500, points = 3\<rparr>
   \<and> getAbilityPointsAvailable 2750 = 3
   \<and> calculateAbilityPointsUsed [(''slam'', 3), (''dash'', 1), (''ult'', 0)] = 9"
proof -
  have h: "highest_milestone 2750 \<lparr>souls = 2500, points = 3\<rparr>"
    by (simp add: highest_milestone_def milestones_def)
  have z: "(0::int) \<le> 2750" by simp
  from h z ability_points [of "[(''slam'', 3), (''dash'', 1), (''ult'', 0)]" _ 2750
      "\<lparr>souls = 2500, points = 3\<rparr>"]
  show ?thesis by (simp add: costs_def)
qed

lemma highest_met_cases:
  assumes "highest_met [(800, m1), (2400, m2), (5600, m3), (12000, m4)] w e"
  shows "snd e = (if 12000 \<le> w then m4 else if 5600 \<le> w then m3 else if 2400 \<le> w then m2 else m1)
    \<and> 800 \<le> w"
  using assms by (auto simp: highest_met_def)

text \<open>
  Claim C4: for every mapping that gives each of the three categories its cumulative
  spend, the investment bonus of a track is the magnitude of the highest breakpoint of
  800, 2400, 5600, 12000 that the category's total has met, and 0 below 800; a weapon
  total of 800 gives 0.04, 799 gives 0, 12000 and 50000 give 0.28.
\<close>
theorem investment_bonus_tiers:
  assumes "totals ''weapon'' = Some w" and "totals ''vitality'' = Some v"
    and "totals ''spirit'' = Some s"
  shows "(w < 800 \<longrightarrow> weapon_weaponDamage (calculateInvestmentBonuses totals) = 0)
       \<and> (highest_met weapon_table w e \<longrightarrow>
            weapon_weaponDamage (calculateInvestmentBonuses totals) = snd e)
       \<and> (v < 800 \<longrightarrow> vitality_health (calculateInvestmentBonuses totals) = 0)
       \<and> (highest_met vitality_table v e \<longrightarrow>
            vitality_health (calculateInvestmentBonuses totals) = snd e)
       \<and> (s < 800 \<longrightarrow> spirit_spiritPower (calculateInvestmentBonuses totals) = 0)
       \<and> (highest_met spirit_table s e \<longrightarrow>
            spirit_spiritPower (calculateInvestmentBonuses totals) = snd e)
       \<and> weapon_weaponDamage (calculateInvestmentBonuses (totals(''weapon'' \<mapsto> 800))) = 4 / 100
       \<and> weapon_weaponDamage (calculateInvestmentBonuses (totals(''weapon'' \<mapsto> 799))) = 0
       \<and> weapon_weaponDamage (calculateInvestmentBonuses (totals(''weapon'' \<mapsto> 12000))) = 28 / 100
       \<and> weapon_weaponDamage (calculateInvestmentBonuses (totals(''weapon'' \<mapsto> 50000))) = 28 / 100"
proof -
  have "highest_met weapon_table w e \<Longrightarrow>
      weapon_weaponDamage (calculateInvestmentBonuses totals) = snd e"
    using assms(1) highest_met_cases [of _ _ _ _ w e]
    by (simp add: weapon_table_def calculateInvestmentBonuses_def ge_total_def)
  moreover have "highest_met vitality_table v e \<Longrightarrow>
      vitality_health (calculateInvestmentBonuses totals) = snd e"
    using assms(2) highest_met_cases [of _ _ _ _ v e]
    by (simp add: vitality_table_def calculateInvestmentBonuses_def ge_total_def)
  moreover have "highest_met spirit_table s e \<Longrightarrow>
      spirit_spiritPower (calculateInvestmentBonuses totals) = snd e"
    using assms(3) highest_met_cases [of _ _ _ _ s e]
    by (simp add: spirit_table_def calculateInvestmentBonuses_def ge_total_def)
  moreover have "w < 800 \<Longrightarrow> weapon_weaponDamage (calculateInvestmentBonuses totals) = 0"
    "v < 800 \<Longrightarrow> vitality_health (calculateInvestmentBonuses totals) = 0"
    "s < 800 \<Longrightarrow> spirit_spiritPower (calculateInvestmentBonuses totals) = 0"
    using assms by (simp_all add: calculateInvestmentBonuses_def ge_total_def)
  moreover have
    "weapon_weaponDamage (calculateInvestmentBonuses (totals(''weapon'' \<mapsto> 800))) = 4 / 100"
    "weapon_weaponDamage (calculateInvestmentBonuses (totals(''weapon'' \<mapsto> 799))) = 0"
    "weapon_weaponDamage (calculateInvestmentBonuses (totals(''weapon'' \<mapsto> 12000))) = 28 / 100"
    "weapon_weaponDamage (calculateInvestmentBonuses (totals(''weapon'' \<mapsto> 50000))) = 28 / 100"
    by (simp_all add: calculateInvestmentBonuses_def ge_total_def)
  ultimately show ?thesis by blast
qed

theorem investment_bonus_tiers_witness:
  "highest_met weapon_table 3000 (2400, 10 / 100)
   \<and> weapon_weaponDamage (calculateInvestmentBonuses
        [''weapon'' \<mapsto> 3000, ''vitality'' \<mapsto> 100, ''spirit'' \<mapsto> 6000]) = 10 / 100
   \<and> vitality_health (calculateInvestmentBonuses
        [''weapon'' \<mapsto> 3000, ''vitality'' \<mapsto> 100, ''spirit'' \<mapsto> 6000]) = 0"
proof -
  have h: "highest_met weapon_table 3000 (2400, 10 / 100)"
    by (simp add: highest_met_def weapon_table_def)
  from h investment_bonus_tiers [of "[''weapon'' \<mapsto> 3000, ''vitality'' \<mapsto> 100, ''spirit'' \<mapsto> 6000]"
      3000 100 6000 "(2400, 10 / 100)"]
  show ?thesis by simp
qed

lemma apply_item_None: "apply_item acc None = acc"
  by (simp add: apply_item_def)

lemma foldl_apply_item_filter:
  "foldl apply_item acc (filter (\<lambda>slot. slot \<noteq> None) items) = foldl apply_item acc items"
  by (induction items arbitrary: acc) (simp_all add: apply_item_None)

lemma foldl_cost_filter:
  "foldl (\<lambda>sum slot. sum + (case slot of None \<Rightarrow> 0 | Some it \<Rightarrow> cost it)) a
      (filter (\<lambda>slot. slot \<noteq> None) items)
   = foldl (\<lambda>sum slot. sum + (case slot of None \<Rightarrow> 0 | Some it \<Rightarrow> cost it)) (a::int) items"
  by (induction items arbitrary: a) simp_all

text \<open>
  Claim C10: for every hero, every ability-upgrade mapping and every item list that may
  hold null entries, \<^verbatim>\<open>calculateStats\<close> returns what it returns on the list with the
  null entries removed.
\<close>
theorem calculateStats_skips_null:
  "calculateStats h items abilityUpgrades
     = calculateStats h (filter (\<lambda>slot. slot \<noteq> None) items) abilityUpgrades"
  by (simp only: calculateStats_def foldl_apply_item_filter foldl_cost_filter)

lemma no_items_bonuses:
  "calculateInvestmentBonuses [''weapon'' \<mapsto> 0, ''vitality'' \<mapsto> 0, ''spirit'' \<mapsto> 0]
     = \<lparr>weapon_weaponDamage = 0, vitality_health = 0, spirit_spiritPower = 0\<rparr>"
  by (simp add: calculateInvestmentBonuses_def ge_total_def)

lemma jadd_zero: "jadd v (Num 0) = v"
  by (cases v) simp_all

lemma no_items_props:
  "props (calculateStats h [] ups) k =
     (if k = ''totalSouls'' then Some (Num 0)
      else if k = ''effectiveHealthSpirit'' then
        Some (calculateEffectiveHealth (to_num (init_stats h ''health'')) (Num 0))
      else if k = ''effectiveHealth'' then
        Some (calculateEffectiveHealth (to_num (init_stats h ''health'')) (Num 0))
      else if k = ''burstDamage'' then
        Some (jmul (jmul (to_num (init_stats h ''bulletDamage'')) (Num 1))
                (to_num (init_stats h ''clipSize'')))
      else if k = ''dps'' then
        Some (jmul (jmul (to_num (init_stats h ''bulletDamage'')) (Num 1))
                (to_num (init_stats h ''fireRate'')))
      else if k = ''effectiveBulletDamage'' then
        Some (jmul (to_num (init_stats h ''bulletDamage'')) (Num 1))
      else if k = ''spiritPower'' then Some (Num 0)
      else if k = ''health'' then Some (to_num (init_stats h ''health''))
      else if k = ''weaponDamage'' then Some (Num 0)
      else if k = ''investmentBonuses'' then None
      else init_stats h k)"
proof -
  have a: "init_stats h ''weaponDamage'' = Some (Num 0)" "init_stats h ''spiritPower'' = Some (Num 0)"
    "init_stats h ''bulletResist'' = Some (Num 0)" "init_stats h ''spiritResist'' = Some (Num 0)"
    by (simp_all add: init_stats_def Let_def)
  show ?thesis
    by (simp add: calculateStats_def Let_def no_items_bonuses jadd_zero a)
qed

lemma init_stats_accumulator:
  "k \<in> set accumulators \<Longrightarrow> init_stats h k = Some (Num 0)"
  by (auto simp: accumulators_def init_stats_def Let_def)

lemma init_stats_other:
  "k \<notin> set accumulators \<Longrightarrow> k \<noteq> ''stamina'' \<Longrightarrow> init_stats h k = map_option Num (baseStats h k)"
  by (simp add: accumulators_def init_stats_def Let_def)

lemma init_stats_stamina:
  "init_stats h ''stamina'' = Some (or_default (map_option Num (baseStats h ''stamina'')) (Num 3))"
  by (simp add: init_stats_def Let_def)

text \<open>
  Claim C7, as the code has it: with no items, \<^verbatim>\<open>calculateStats\<close> returns the nine
  accumulators as 0, \<^verbatim>\<open>totalSouls\<close> as 0, no investment bonus, and every other stat
  of the hero as the hero has it (health when the hero has one), apart from the fields it
  computes and from stamina: the stamina is the hero's when that is set and not 0, and 3
  when the hero has none.
\<close>
theorem calculateStats_no_items:
  "(\<forall>k \<in> set accumulators. props (calculateStats h [] ups) k = Some (Num 0))
   \<and> props (calculateStats h [] ups) ''totalSouls'' = Some (Num 0)
   \<and> investmentBonuses (calculateStats h [] ups)
       = \<lparr>weapon_weaponDamage = 0, vitality_health = 0, spirit_spiritPower = 0\<rparr>
   \<and> (k \<notin> set accumulators \<and> k \<notin> set computed_fields \<and> k \<noteq> ''stamina'' \<and> k \<noteq> ''health''
        \<longrightarrow> props (calculateStats h [] ups) k = map_option Num (baseStats h k))
   \<and> (baseStats h ''health'' = Some v \<longrightarrow> props (calculateStats h [] ups) ''health'' = Some (Num v))
   \<and> (baseStats h ''stamina'' = Some v \<and> v \<noteq> 0
        \<longrightarrow> props (calculateStats h [] ups) ''stamina'' = Some (Num v))
   \<and> (baseStats h ''stamina'' = None
        \<longrightarrow> props (calculateStats h [] ups) ''stamina'' = Some (Num 3))"
proof -
  have acc: "\<forall>k \<in> set accumulators. props (calculateStats h [] ups) k = Some (Num 0)"
  proof
    fix k assume k: "k \<in> set accumulators"
    then have "k \<notin> set computed_fields" "k \<noteq> ''health''"
      by (auto simp: accumulators_def computed_fields_def)
    with k show "props (calculateStats h [] ups) k = Some (Num 0)"
      by (simp add: no_items_props init_stats_accumulator computed_fields_def)
  qed
  have souls: "props (calculateStats h [] ups) ''totalSouls'' = Some (Num 0)"
    by (simp add: no_items_props)
  have bon: "investmentBonuses (calculateStats h [] ups)
       = \<lparr>weapon_weaponDamage = 0, vitality_health = 0, spirit_spiritPower = 0\<rparr>"
    by (simp add: calculateStats_def Let_def no_items_bonuses)
  have other: "props (calculateStats h [] ups) k = map_option Num (baseStats h k)"
    if "k \<notin> set accumulators" "k \<notin> set computed_fields" "k \<noteq> ''stamina''" "k \<noteq> ''health''"
  proof -
    from that(1) have "k \<noteq> ''weaponDamage''" "k \<noteq> ''spiritPower''"
      by (auto simp: accumulators_def)
    with that show ?thesis
      by (simp add: no_items_props init_stats_other computed_fields_def)
  qed
  have health: "props (calculateStats h [] ups) ''health'' = Some (Num v)"
    if "baseStats h ''health'' = Some v"
    using that init_stats_other [of "''health''" h]
    by (simp add: no_items_props accumulators_def)
  have stam: "props (calculateStats h [] ups) ''stamina''
      = Some (or_default (map_option Num (baseStats h ''stamina'')) (Num 3))"
    by (simp add: no_items_props init_stats_stamina)
  have s1: "props (calculateStats h [] ups) ''stamina'' = Some (Num v)"
    if "baseStats h ''stamina'' = Some v" "v \<noteq> 0"
    using that by (simp add: stam)
  have s2: "props (calculateStats h [] ups) ''stamina'' = Some (Num 3)"
    if "baseStats h ''stamina'' = None"
    using that by (simp add: stam)
  from acc souls bon other health s1 s2 show ?thesis by blast
qed

theorem calculateStats_no_items_witness:
  "props (calculateStats ex_hero [] []) ''moveSpeed'' = Some (Num 7)
   \<and> props (calculateStats ex_hero [] []) ''health'' = Some (Num 550)
   \<and> props (calculateStats ex_hero [] []) ''spiritResist'' = Some (Num 0)
   \<and> props (calculateStats ex_hero [] []) ''stamina'' = Some (Num 3)"
proof -
  have a: "''spiritResist'' \<in> set accumulators"
    by (simp add: accumulators_def)
  have b: "''moveSpeed'' \<notin> set accumulators \<and> ''moveSpeed'' \<notin> set computed_fields
      \<and> ''moveSpeed'' \<noteq> ''stamina'' \<and> ''moveSpeed'' \<noteq> ''health''"
    by (simp add: accumulators_def computed_fields_def)
  have c: "baseStats ex_hero ''health'' = Some 550" "baseStats ex_hero ''stamina'' = None"
    "baseStats ex_hero ''moveSpeed'' = Some 7"
    by (simp_all add: ex_hero_def)
  from a b c calculateStats_no_items [of ex_hero "[]" "''moveSpeed''" 550]
  show ?thesis by auto
qed

text \<open>A hero without stamina comes back with stamina 3.\<close>

theorem calculateStats_stamina_counterexample:
  "baseStats ex_hero ''stamina'' = None
   \<and> ''stamina'' \<notin> set accumulators
   \<and> props (calculateStats ex_hero [] []) ''stamina'' = Some (Num 3)
   \<and> props (calculateStats ex_hero [] []) ''stamina''
       \<noteq> map_option Num (baseStats ex_hero ''stamina'')"
  by (simp add: no_items_props init_stats_stamina ex_hero_def accumulators_def)

lemma regex_match_plain: "regex_match ''+8 Damage'' = Some ''8''"
  by code_simp

lemma regex_match_later: "regex_match ''+1s Range, +35  dps'' = Some ''35''"
  by code_simp

lemma regex_match_other: "regex_match ''+2m Range'' = None"
  by code_simp

lemma space_not_digit: "is_space c \<Longrightarrow> \<not> is_digit c"
  by (auto simp: is_space_def is_digit_def)

lemma lower_d: "lower c = CHR ''d'' \<Longrightarrow> \<not> is_digit c \<and> \<not> is_space c"
  by (auto simp: lower_def is_digit_def is_space_def split: if_splits)

lemma keyword_head:
  assumes "map lower kw = ''damage'' \<or> map lower kw = ''dps''"
  obtains c kw' where "kw = c # kw'" "\<not> is_digit c" "\<not> is_space c"
proof -
  from assms obtain c kw' where kw: "kw = c # kw'" and "lower c = CHR ''d''"
    by (cases kw) auto
  with lower_d [of c] that show ?thesis by blast
qed

lemma keyword_append:
  assumes "map lower kw = ''damage'' \<or> map lower kw = ''dps''"
  shows "is_keyword (kw @ post)"
proof -
  from assms have "length (map lower kw) = 6 \<and> map lower kw = ''damage''
      \<or> length (map lower kw) = 3 \<and> map lower kw = ''dps''"
    by auto
  then show ?thesis
    by (auto simp: is_keyword_def)
qed

lemma match_here_shape:
  assumes ne: "ds \<noteq> []" and ds: "list_all is_digit ds" and ws: "list_all is_space ws"
    and kw: "map lower kw = ''damage'' \<or> map lower kw = ''dps''"
  shows "match_here (CHR ''+'' # ds @ ws @ kw @ post) = Some ds"
proof -
  from kw obtain c kw' where c: "kw = c # kw'" "\<not> is_digit c" "\<not> is_space c"
    by (rule keyword_head)
  have nd: "takeWhile is_digit (ws @ kw @ post) = []"
  proof (cases ws)
    case Nil
    with c show ?thesis by simp
  next
    case (Cons w ws')
    with ws have "is_space w" by simp
    with Cons show ?thesis by (simp add: space_not_digit)
  qed
  from ds have tk: "takeWhile is_digit (ds @ ws @ kw @ post) = ds"
    by (simp add: takeWhile_append2 list_all_iff nd)
  have "takeWhile is_digit (ws @ kw @ post) @ dropWhile is_digit (ws @ kw @ post) = ws @ kw @ post"
    by (rule takeWhile_dropWhile_id)
  then have "dropWhile is_digit (ws @ kw @ post) = ws @ kw @ post"
    by (simp only: nd append_Nil)
  with ds have dr: "dropWhile is_digit (ds @ ws @ kw @ post) = ws @ kw @ post"
    by (simp add: dropWhile_append2 list_all_iff)
  from ws c have sp: "dropWhile is_space (ws @ kw @ post) = kw @ post"
    by (simp add: dropWhile_append2 list_all_iff)
  from ne show ?thesis
    by (simp add: match_here_def tk dr sp keyword_append [OF kw])
qed

lemma match_here_pattern: "match_here s = Some cap \<longleftrightarrow> damage_pattern s cap"
proof
  assume m: "match_here s = Some cap"
  then obtain rest where s: "s = CHR ''+'' # rest"
    and ne: "takeWhile is_digit rest \<noteq> []"
    and kw: "is_keyword (dropWhile is_space (dropWhile is_digit rest))"
    and n: "cap = takeWhile is_digit rest"
    by (auto simp: match_here_def split: list.splits if_splits)
  let ?r1 = "dropWhile is_digit rest"
  let ?ws = "takeWhile is_space ?r1"
  let ?r2 = "dropWhile is_space ?r1"
  from kw have "\<exists>k. map lower (take k ?r2) = ''damage'' \<or> map lower (take k ?r2) = ''dps''"
    unfolding is_keyword_def
  proof
    assume "map lower (take 6 ?r2) = ''damage''"
    then show ?thesis by (intro exI [of _ 6] disjI1)
  next
    assume "map lower (take 3 ?r2) = ''dps''"
    then show ?thesis by (intro exI [of _ 3] disjI2)
  qed
  then obtain k where k: "map lower (take k ?r2) = ''damage'' \<or> map lower (take k ?r2) = ''dps''" ..
  have "rest = cap @ ?ws @ take k ?r2 @ drop k ?r2"
    by (simp add: n)
  moreover have "list_all is_digit cap" "list_all is_space ?ws"
    by (auto simp: n list_all_iff dest: set_takeWhileD)
  moreover from ne n have "cap \<noteq> []" by simp
  ultimately have "\<exists>ws kw post. s = CHR ''+'' # cap @ ws @ kw @ post \<and> cap \<noteq> []
      \<and> list_all is_digit cap \<and> list_all is_space ws
      \<and> (map lower kw = ''damage'' \<or> map lower kw = ''dps'')"
    using s k
    by (intro exI [of _ ?ws] exI [of _ "take k ?r2"] exI [of _ "drop k ?r2"])
       (simp only: list.inject simp_thms)
  then show "damage_pattern s cap"
    unfolding damage_pattern_def .
next
  assume "damage_pattern s cap"
  then show "match_here s = Some cap"
    unfolding damage_pattern_def
    apply (elim exE conjE)
    apply hypsubst
    apply (rule match_here_shape; assumption)
    done
qed

lemma regex_match_first:
  "match_here rest = Some n \<Longrightarrow> \<forall>k < length pre. match_here (drop k (pre @ rest)) = None \<Longrightarrow>
     regex_match (pre @ rest) = Some n"
proof (induction pre)
  case Nil
  then show ?case by (cases rest) (simp_all add: match_here_def)
next
  case (Cons c pre)
  from Cons.prems(2) have "match_here (drop 0 ((c # pre) @ rest)) = None" by blast
  then have here: "match_here (c # pre @ rest) = None" by simp
  have "\<forall>k < length pre. match_here (drop k (pre @ rest)) = None"
  proof (intro allI impI)
    fix k assume "k < length pre"
    then have "Suc k < length (c # pre)" by simp
    with Cons.prems(2) have "match_here (drop (Suc k) ((c # pre) @ rest)) = None" by blast
    then show "match_here (drop k (pre @ rest)) = None" by simp
  qed
  with Cons.IH Cons.prems(1) have "regex_match (pre @ rest) = Some n" by blast
  with here show ?case by simp
qed

lemma regex_match_none:
  "\<forall>k \<le> length s. match_here (drop k s) = None \<Longrightarrow> regex_match s = None"
proof (induction s)
  case Nil
  then show ?case by simp
next
  case (Cons c s)
  from Cons.prems have "match_here (drop 0 (c # s)) = None" by blast
  then have here: "match_here (c # s) = None" by simp
  have "\<forall>k \<le> length s. match_here (drop k s) = None"
  proof (intro allI impI)
    fix k assume "k \<le> length s"
    then have "Suc k \<le> length (c # s)" by simp
    with Cons.prems have "match_here (drop (Suc k) (c # s)) = None" by blast
    then show "match_here (drop k s) = None" by simp
  qed
  with Cons.IH have "regex_match s = None" by blast
  with here show ?case by simp
qed


lemma matches_found_append:
  "matches_found (us @ vs) = matches_found us @ matches_found vs"
  by (induction us) (simp_all split: option.splits)

lemma upgrade_block_fold:
  "upgrade_block a lvl k acc
     = foldl dadd acc
         (matches_found (if int k + 1 \<le> lvl \<and> k < length (upgrades a) then [upgrades a ! k] else []))"
  by (simp add: upgrade_block_def split: option.splits)

lemma take3_split:
  "take n (take 3 xs)
     = (if 1 \<le> n \<and> 0 < length xs then [xs ! 0] else [])
       @ (if 2 \<le> n \<and> 1 < length xs then [xs ! 1] else [])
       @ (if 3 \<le> n \<and> 2 < length xs then [xs ! 2] else [])"
proof -
  consider "n = 0" | "n = Suc 0" | "n = Suc (Suc 0)" | "3 \<le> n" by linarith
  then show ?thesis
  proof cases
    case 1
    then show ?thesis by simp
  next
    case 2
    then show ?thesis by (cases xs) simp_all
  next
    case 3
    show ?thesis
    proof (cases xs)
      case Nil
      then show ?thesis by simp
    next
      case (Cons x1 ys)
      with 3 show ?thesis by (cases ys) simp_all
    qed
  next
    case 4
    then have t: "take n (take 3 xs) = take 3 xs" by simp
    show ?thesis
    proof (cases xs)
      case Nil
      then show ?thesis by simp
    next
      case c1: (Cons x1 ys)
      show ?thesis
      proof (cases ys)
        case Nil
        with c1 4 show ?thesis by (simp add: t)
      next
        case c2: (Cons x2 zs)
        with c1 4 show ?thesis by (cases zs) (simp_all add: t)
      qed
    qed
  qed
qed

lemma upgrade_blocks_fold:
  "upgrade_block a lvl 2 (upgrade_block a lvl 1 (upgrade_block a lvl 0 (Num 0)))
     = foldl dadd (Num 0) (matches_found (take (nat lvl) (take 3 (upgrades a))))"
proof -
  have c: "(1 \<le> nat lvl) = (int 0 + 1 \<le> lvl)" "(2 \<le> nat lvl) = (int 1 + 1 \<le> lvl)"
    "(3 \<le> nat lvl) = (int 2 + 1 \<le> lvl)"
    by linarith+
  show ?thesis
    by (simp only: upgrade_block_fold take3_split matches_found_append foldl_append c)
qed



lemma bits_pos: "0 < n \<Longrightarrow> 1 \<le> bits n"
proof -
  assume n: "0 < n"
  have "0 \<le> bits m" for m
  proof (induction m rule: bits.induct)
    case (1 m)
    then show ?case by (subst bits.simps) auto
  qed
  from this [of "n div 2"] n show ?thesis
    by (subst bits.simps) simp
qed

lemma bits_bounds:
  "0 < n \<Longrightarrow> 2 ^ nat (bits n - 1) \<le> n \<and> n < 2 ^ nat (bits n)"
proof (induction n rule: bits.induct)
  case (1 n)
  show ?case
  proof (cases "n = 1")
    case True
    have "bits 1 = 1"
      by (subst bits.simps, simp, subst bits.simps, simp)
    with True show ?thesis by simp
  next
    case False
    with 1(2) have h: "0 < n div 2" "\<not> n \<le> 0" by simp_all
    from 1(1) [OF h(2) h(1)]
    have ih: "2 ^ nat (bits (n div 2) - 1) \<le> n div 2" "n div 2 < 2 ^ nat (bits (n div 2))"
      by simp_all
    from bits_pos [OF h(1)] have p: "1 \<le> bits (n div 2)" .
    from h(2) have b: "bits n = 1 + bits (n div 2)"
      by (subst bits.simps) simp
    from p b have e1: "nat (bits n - 1) = Suc (nat (bits (n div 2) - 1))"
      and e2: "nat (bits n) = Suc (nat (bits (n div 2)))"
      by linarith+
    have "2 * (n div 2) \<le> n" "n < 2 * (n div 2) + 2" by linarith+
    with ih show ?thesis
      by (simp only: e1 e2 power_Suc) linarith
  qed
qed

lemma floor_log2_int:
  assumes "0 < n"
  shows "floor_log2 (of_int n) = bits n - 1"
proof -
  from bits_bounds [OF assms] have "(2::int) ^ nat (bits n - 1) \<le> n" by simp
  then have "(of_int ((2::int) ^ nat (bits n - 1)) :: rat) \<le> of_int n"
    by (simp only: of_int_le_iff)
  then have le: "(2::rat) ^ nat (bits n - 1) \<le> of_int n" by simp
  from bits_pos [OF assms] have nn: "0 \<le> bits n - 1" by simp
  have b1: "bits 1 = 1"
    by (subst bits.simps, simp, subst bits.simps, simp)
  from le nn show ?thesis
    by (simp add: floor_log2_def quotient_of_int b1 pow2_def Let_def)
qed

lemma round_half_even_int: "round_half_even (of_int k) = k"
  by (simp add: round_half_even_def Let_def)

lemma to_double_int:
  assumes "0 \<le> n" "n < 2 ^ 53"
  shows "to_double (of_int n) = Num (of_int n)"
proof (cases "n = 0")
  case True
  then show ?thesis by (simp add: to_double_def)
next
  case False
  with assms have pos: "0 < n" by simp
  let ?e = "bits n - 1"
  from bits_bounds [OF pos] assms(2) have "(2::int) ^ nat ?e < 2 ^ 53" by linarith
  then have "nat ?e < 53" by (simp only: power_strict_increasing_iff) 
  with bits_pos [OF pos] have e: "0 \<le> ?e" "?e \<le> 52" by simp_all
  then have p: "max (?e - 52) (- 1074) = ?e - 52" by simp
  let ?k = "nat (52 - ?e)"
  from e have pw: "pow2 (?e - 52) = 1 / 2 ^ ?k"
    by (cases "?e = 52") (simp_all add: pow2_def)
  have q: "(of_int n :: rat) / pow2 (?e - 52) = of_int (n * 2 ^ ?k)"
    by (simp only: pw) simp
  have bk: "(of_int (n * 2 ^ ?k) :: rat) * pow2 (?e - 52) = of_int n"
    by (simp only: pw) simp
  from pos have az: "\<bar>of_int n :: rat\<bar> = of_int n" "(of_int n :: rat) \<noteq> 0" by simp_all
  from e have np: "\<not> 971 < ?e - 52" "?e - 52 \<noteq> 971" by simp_all
  show ?thesis
    unfolding to_double_def Let_def az floor_log2_int [OF pos] p q round_half_even_int bk
    using az(2) np by simp
qed


lemma digits_foldl_nonneg:
  "list_all is_digit ds \<Longrightarrow> 0 \<le> a \<Longrightarrow>
     0 \<le> foldl (\<lambda>n c. 10 * n + (of_char c - 48)) (a::int) ds"
proof (induction ds arbitrary: a)
  case Nil
  then show ?case by simp
next
  case (Cons c ds)
  from Cons.prems(1) have "48 \<le> (of_char c :: nat)" by (simp add: is_digit_def)
  then have "int 48 \<le> int (of_char c)"
    by (simp only: of_nat_le_iff)
  then have "(48::int) \<le> of_char c"
    by (simp add: of_nat_of_char)
  with Cons.prems(2) have "0 \<le> 10 * a + (of_char c - 48)" by simp
  with Cons.IH [of "10 * a + (of_char c - 48)"] Cons.prems(1) show ?case by simp
qed

lemma regex_match_digits: "regex_match s = Some ds \<Longrightarrow> list_all is_digit ds"
proof (induction s)
  case Nil
  then show ?case by simp
next
  case (Cons c s)
  show ?case
  proof (cases "match_here (c # s)")
    case None
    with Cons show ?thesis by simp
  next
    case (Some cap)
    with Cons.prems have "cap = ds" by simp
    with Some have "ds = takeWhile is_digit s"
      by (auto simp: match_here_def split: if_splits)
    then show ?thesis
      by (auto simp: list_all_iff dest: set_takeWhileD)
  qed
qed

lemma tier_number_nonneg: "0 \<le> tier_number u"
  by (auto simp: tier_number_def digits_value_def split: option.splits
        intro: digits_foldl_nonneg dest: regex_match_digits)

lemma sum_tier_numbers_nonneg: "0 \<le> sum_list (map tier_number us)"
  by (rule sum_list_nonneg) (auto simp: tier_number_nonneg)

lemma matches_sum_exact:
  "0 \<le> a \<Longrightarrow> a + sum_list (map tier_number us) < 2 ^ 53 \<Longrightarrow>
     foldl dadd (Num (of_int a)) (matches_found us)
       = Num (of_int (a + sum_list (map tier_number us)))"
proof (induction us arbitrary: a)
  case Nil
  then show ?case by simp
next
  case (Cons u us)
  let ?v = "tier_number u"
  have v: "0 \<le> ?v" by (rule tier_number_nonneg)
  have r: "0 \<le> sum_list (map tier_number us)" by (rule sum_tier_numbers_nonneg)
  from Cons.prems v r have small: "a + ?v < 2 ^ 53" "?v < 2 ^ 53" by simp_all
  from Cons.prems v have ih: "foldl dadd (Num (of_int (a + ?v))) (matches_found us)
      = Num (of_int (a + ?v + sum_list (map tier_number us)))"
    by (intro Cons.IH) simp_all
  show ?case
  proof (cases "regex_match (effect u)")
    case None
    then have "?v = 0" by (simp add: tier_number_def)
    with None ih show ?thesis by simp
  next
    case (Some ds)
    then have dv: "?v = digits_value ds" by (simp add: tier_number_def)
    from v small(2) have "parseInt ds = Num (of_int ?v)"
      by (simp add: parseInt_def dv [symmetric] to_double_int)
    moreover from Cons.prems(1) v small(1) have "to_double (of_int (a + ?v)) = Num (of_int (a + ?v))"
      by (intro to_double_int) simp_all
    then have "dadd (Num (of_int a)) (Num (of_int ?v)) = Num (of_int (a + ?v))"
      by (simp add: dadd_def)
    ultimately show ?thesis using Some ih by (simp add: add.assoc)
  qed
qed

lemma to_double_0: "to_double 0 = Num 0"
  by (simp add: to_double_def)

text \<open>
  Claim C5, as the code has it, in the arithmetic of doubles: for every ability whose
  base damage is present and not 0 as a double, every spirit power and every upgrade
  level, \<^verbatim>\<open>calculateAbilityDamage\<close> returns the base, the rounded product of spirit
  power and coefficient (0 when the coefficient is absent), the sum of the matches found
  in the tiers at or below the level, and the rounded sum of base, unrounded product and
  upgrade bonus. The match of a tier is the number at the leftmost place where its text
  reads a plus sign, digits, optional white space and then Damage or DPS in any case; a
  tier without such a place adds nothing, and as long as the numbers sum to less than
  \<open>2 ^ 53\<close> the upgrade bonus is their exact sum. An ability without base damage, or
  with base damage 0, gives \<^verbatim>\<open>null\<close>. Base damage 50, coefficient 0.5, spirit power 20
  and level 0 give 50, 10, 0 and 60.
\<close>
theorem calculateAbilityDamage_result:
  "(baseDamage a = Some b \<and> to_double b \<noteq> Num 0 \<longrightarrow>
      calculateAbilityDamage a spiritPower upgradeLevel =
        Some \<lparr>base = to_double b,
              spiritBonus =
                math_round (dmul (rnd spiritPower)
                  (or_default (map_option to_double (spiritCoefficient a)) (Num 0))),
              upgradeBonus =
                foldl dadd (Num 0)
                  (matches_found (take (nat upgradeLevel) (take 3 (upgrades a)))),
              total' =
                math_round
                  (dadd
                    (dadd (to_double b)
                      (dmul (rnd spiritPower)
                        (or_default (map_option to_double (spiritCoefficient a)) (Num 0))))
                    (foldl dadd (Num 0)
                      (matches_found (take (nat upgradeLevel) (take 3 (upgrades a))))))\<rparr>)
   \<and> (baseDamage a = None \<or> baseDamage a = Some 0
        \<or> (baseDamage a = Some b \<and> to_double b = Num 0) \<longrightarrow>
        calculateAbilityDamage a spiritPower upgradeLevel = None)
   \<and> (sum_list (map tier_number (take (nat upgradeLevel) (take 3 (upgrades a)))) < 2 ^ 53 \<longrightarrow>
        foldl dadd (Num 0) (matches_found (take (nat upgradeLevel) (take 3 (upgrades a))))
          = Num (of_int (sum_list (map tier_number (take (nat upgradeLevel) (take 3 (upgrades a)))))))
   \<and> (damage_pattern rest ds \<and> (\<forall>k < length pre. \<forall>ds'. \<not> damage_pattern (drop k (pre @ rest)) ds')
        \<longrightarrow> matches_found [\<lparr>effect = pre @ rest\<rparr>] = [parseInt ds])
   \<and> ((\<forall>k \<le> length s. \<forall>ds'. \<not> damage_pattern (drop k s) ds')
        \<longrightarrow> matches_found [\<lparr>effect = s\<rparr>] = [])
   \<and> calculateAbilityDamage
        \<lparr>baseDamage = Some 50, spiritCoefficient = Some (1 / 2), upgrades = us\<rparr> (Num 20) 0
       = Some \<lparr>base = Num 50, spiritBonus = Num 10, upgradeBonus = Num 0, total' = Num 60\<rparr>"
proof -
  have main: "calculateAbilityDamage a spiritPower upgradeLevel =
        Some \<lparr>base = to_double b,
              spiritBonus =
                math_round (dmul (rnd spiritPower)
                  (or_default (map_option to_double (spiritCoefficient a)) (Num 0))),
              upgradeBonus =
                foldl dadd (Num 0)
                  (matches_found (take (nat upgradeLevel) (take 3 (upgrades a)))),
              total' =
                math_round
                  (dadd
                    (dadd (to_double b)
                      (dmul (rnd spiritPower)
                        (or_default (map_option to_double (spiritCoefficient a)) (Num 0))))
                    (foldl dadd (Num 0)
                      (matches_found (take (nat upgradeLevel) (take 3 (upgrades a))))))\<rparr>"
    if "baseDamage a = Some b" "to_double b \<noteq> Num 0"
    unfolding calculateAbilityDamage_def Let_def upgrade_blocks_fold
    using that by simp
  have null: "calculateAbilityDamage a spiritPower upgradeLevel = None"
    if "baseDamage a = None \<or> baseDamage a = Some 0
      \<or> (baseDamage a = Some b \<and> to_double b = Num 0)"
    using that by (auto simp: calculateAbilityDamage_def to_double_0)
  have exact: "foldl dadd (Num 0) (matches_found us) = Num (of_int (sum_list (map tier_number us)))"
    if "sum_list (map tier_number us) < 2 ^ 53" for us
    using that matches_sum_exact [of 0 us] by simp
  have first: "matches_found [\<lparr>effect = pre @ rest\<rparr>] = [parseInt ds]"
    if "damage_pattern rest ds"
      "\<forall>k < length pre. \<forall>ds'. \<not> damage_pattern (drop k (pre @ rest)) ds'"
  proof -
    from that(1) have "match_here rest = Some ds"
      by (simp only: match_here_pattern)
    moreover have "\<forall>k < length pre. match_here (drop k (pre @ rest)) = None"
    proof (intro allI impI)
      fix k assume "k < length pre"
      with that(2) have "\<forall>ds'. match_here (drop k (pre @ rest)) \<noteq> Some ds'"
        by (simp only: match_here_pattern) blast
      then show "match_here (drop k (pre @ rest)) = None"
        by (cases "match_here (drop k (pre @ rest))") simp_all
    qed
    ultimately have "regex_match (pre @ rest) = Some ds"
      by (rule regex_match_first)
    then show ?thesis by simp
  qed
  have none: "matches_found [\<lparr>effect = s\<rparr>] = []"
    if "\<forall>k \<le> length s. \<forall>ds'. \<not> damage_pattern (drop k s) ds'"
  proof -
    have "\<forall>k \<le> length s. match_here (drop k s) = None"
    proof (intro allI impI)
      fix k assume "k \<le> length s"
      with that have "\<forall>ds'. match_here (drop k s) \<noteq> Some ds'"
        by (simp only: match_here_pattern) blast
      then show "match_here (drop k s) = None"
        by (cases "match_here (drop k s)") simp_all
    qed
    then have "regex_match s = None" by (rule regex_match_none)
    then show ?thesis by simp
  qed
  have d: "to_double 50 = Num 50" "to_double (1 / 2) = Num (1 / 2)" "to_double 20 = Num 20"
    "to_double 10 = Num 10" "to_double 60 = Num 60"
    by code_simp+
  have r: "js_round 10 = 10" "js_round 60 = 60"
    by code_simp+
  have ex: "calculateAbilityDamage
        \<lparr>baseDamage = Some 50, spiritCoefficient = Some (1 / 2), upgrades = us\<rparr> (Num 20) 0
       = Some \<lparr>base = Num 50, spiritBonus = Num 10, upgradeBonus = Num 0, total' = Num 60\<rparr>"
    by (simp add: calculateAbilityDamage_def Let_def upgrade_block_def dmul_def dadd_def d r)
  from main null exact first none ex show ?thesis by blast
qed

lemma ex_ability_level3:
  "calculateAbilityDamage ex_ability (Num 20) 3
     = Some \<lparr>base = Num 50, spiritBonus = Num 10, upgradeBonus = Num 48, total' = Num 108\<rparr>"
  by code_simp

theorem calculateAbilityDamage_result_witness:
  "baseDamage ex_ability = Some 50 \<and> to_double 50 \<noteq> Num 0
   \<and> foldl dadd (Num 0) (matches_found (take (nat 3) (take 3 (upgrades ex_ability)))) = Num 48
   \<and> damage_pattern ''+40 DPS'' ''40''
   \<and> matches_found [\<lparr>effect = ''x '' @ ''+40 DPS''\<rparr>] = [Num 40]"
proof -
  have p: "damage_pattern ''+40 DPS'' ''40''"
    unfolding match_here_pattern [symmetric] by code_simp
  have q: "\<forall>k < length ''x ''. \<forall>ds'. \<not> damage_pattern (drop k (''x '' @ ''+40 DPS'')) ds'"
    unfolding match_here_pattern [symmetric]
    by (simp add: numeral_2_eq_2 All_less_Suc match_here_def)
  have b: "baseDamage ex_ability = Some 50" by (simp add: ex_ability_def)
  have nz: "to_double 50 \<noteq> Num 0" by code_simp
  have pi: "parseInt ''40'' = Num 40" by code_simp
  note inst = calculateAbilityDamage_result [of ex_ability 50 "Num 20" 3 "''+40 DPS''" "''40''" "''x ''"]
  from b nz inst have "calculateAbilityDamage ex_ability (Num 20) 3 =
      Some \<lparr>base = to_double 50,
        spiritBonus = math_round (dmul (rnd (Num 20))
          (or_default (map_option to_double (spiritCoefficient ex_ability)) (Num 0))),
        upgradeBonus = foldl dadd (Num 0)
          (matches_found (take (nat 3) (take 3 (upgrades ex_ability)))),
        total' = math_round (dadd (dadd (to_double 50) (dmul (rnd (Num 20))
          (or_default (map_option to_double (spiritCoefficient ex_ability)) (Num 0))))
          (foldl dadd (Num 0) (matches_found (take (nat 3) (take 3 (upgrades ex_ability))))))\<rparr>"
    by blast
  then have u: "foldl dadd (Num 0) (matches_found (take (nat 3) (take 3 (upgrades ex_ability))))
      = Num 48"
    by (simp only: ex_ability_level3 option.inject ability_damage.simps) simp
  from p q inst have "matches_found [\<lparr>effect = ''x '' @ ''+40 DPS''\<rparr>] = [parseInt ''40'']"
    by blast
  with b nz u p pi show ?thesis by simp
qed

text \<open>A base damage of 0 is falsy, and the result is \<^verbatim>\<open>null\<close>.\<close>

theorem calculateAbilityDamage_zero_base_counterexample:
  "calculateAbilityDamage
     \<lparr>baseDamage = Some 0, spiritCoefficient = Some (1 / 2), upgrades = []\<rparr> (Num 20) 0 = None"
  by (simp add: calculateAbilityDamage_def to_double_0)

text \<open>
  Two products that are not exact in doubles: \<open>45 * 0.7\<close> is a little below 31.5, and
  \<open>150 * 1.13\<close> a little below 169.5.
\<close>

lemma calculateAbilityDamage_inexact:
  "calculateAbilityDamage
     \<lparr>baseDamage = Some 50, spiritCoefficient = Some (7 / 10), upgrades = []\<rparr> (Num 45) 0
     = Some \<lparr>base = Num 50, spiritBonus = Num 31, upgradeBonus = Num 0, total' = Num 82\<rparr>"
  "calculateAbilityDamage
     \<lparr>baseDamage = Some 50, spiritCoefficient = Some (113 / 100), upgrades = []\<rparr> (Num 150) 0
     = Some \<lparr>base = Num 50, spiritBonus = Num 169, upgradeBonus = Num 0, total' = Num 219\<rparr>"
  by code_simp+

end
